theory Spec2Isabelle
  imports Complex_Main
begin

section \<open>Natural cubic spline interpolation with a successive over-relaxation solver\<close>

text \<open>
  A shallow embedding of \<^verbatim>\<open>natural_cubic_splines_interpolation.py\<close>.
  NumPy's one-dimensional arrays are lists of numbers, its two-dimensional arrays are lists
  of rows.
\<close>

subsection \<open>The arithmetic of the program\<close>

text \<open>
  The program computes with NumPy's numbers: binary64 values, rounded after every
  operation, with infinities and NaN, and 64-bit integers where the points are given as
  integers. That arithmetic is not part of the program text, so the model takes it as a
  parameter: a record of the operations the program applies. Every function below is
  defined for any such record, and a theorem stated for every record holds for the
  arithmetic the program really runs on.

  \<^item> \<open>flit r\<close> is the number a literal or a NumPy constructor denotes
    (\<^verbatim>\<open>0\<close>, \<^verbatim>\<open>1\<close>, \<^verbatim>\<open>2\<close>, \<^verbatim>\<open>6\<close>, \<^verbatim>\<open>0.5\<close>, \<^verbatim>\<open>1e-8\<close>, the entries of
    \<^verbatim>\<open>np.zeros\<close>);
  \<^item> \<open>fadd\<close>, \<open>fsub\<close>, \<open>fmul\<close>, \<open>fdiv\<close>, \<open>fpow\<close> are \<^verbatim>\<open>+\<close>, \<^verbatim>\<open>-\<close>,
    \<^verbatim>\<open>*\<close>, \<^verbatim>\<open>/\<close>, \<^verbatim>\<open>**\<close>;
  \<^item> \<open>fgt\<close> is the comparison \<^verbatim>\<open>>\<close> (false whenever an operand is NaN);
  \<^item> \<open>np_matmul\<close> and \<open>np_norm\<close> are \<^verbatim>\<open>np.matmul\<close> of a matrix and a vector, and
    \<^verbatim>\<open>np.linalg.norm\<close> of a vector.
\<close>

record 'a arith =
  flit :: "real \<Rightarrow> 'a"
  fadd :: "'a \<Rightarrow> 'a \<Rightarrow> 'a"
  fsub :: "'a \<Rightarrow> 'a \<Rightarrow> 'a"
  fmul :: "'a \<Rightarrow> 'a \<Rightarrow> 'a"
  fdiv :: "'a \<Rightarrow> 'a \<Rightarrow> 'a"
  fpow :: "'a \<Rightarrow> nat \<Rightarrow> 'a"
  fgt :: "'a \<Rightarrow> 'a \<Rightarrow> bool"
  np_matmul :: "'a list list \<Rightarrow> 'a list \<Rightarrow> 'a list"
  np_norm :: "'a list \<Rightarrow> 'a"

text \<open>
  Exact arithmetic on the reals: no rounding, no overflow, no NaN. The sample runs below
  are on inputs where the program's binary64 arithmetic gives the same values: every
  number in them is a binary64 number and no addition, subtraction, multiplication or
  division rounds (the literal \<^verbatim>\<open>1e-8\<close> and the square root of the norm do, without
  changing the outcome of a comparison). A division by zero, which NumPy answers with an
  infinity or NaN, has no counterpart here; none occurs in the sample runs.
\<close>

definition exact :: "real arith" where
  "exact = \<lparr>flit = (\<lambda>r. r), fadd = (+), fsub = (-), fmul = (*), fdiv = (/), fpow = (^),
            fgt = (\<lambda>u v. u > v),
            np_matmul = (\<lambda>A x. map (\<lambda>row. sum_list (map2 (*) row x)) A),
            np_norm = (\<lambda>v. sqrt (sum_list (map (\<lambda>a. a\<^sup>2) v)))\<rparr>"

subsection \<open>Shapes\<close>

text \<open>\<^verbatim>\<open>A.shape[0]\<close> and \<^verbatim>\<open>A.shape[1]\<close> of a two-dimensional array.\<close>

definition nrows :: "'a list list \<Rightarrow> nat" where
  "nrows A = length A"

definition ncols :: "'a list list \<Rightarrow> nat" where
  "ncols A = (case A of [] \<Rightarrow> 0 | r # _ \<Rightarrow> length r)"

subsection \<open>The solver \<^verbatim>\<open>relajacion\<close>\<close>

text \<open>
  The arguments are those of the docstring: a matrix \<^verbatim>\<open>A\<close> of \<open>n\<close> rows of \<open>n\<close>
  numbers, and vectors \<^verbatim>\<open>b\<close> and \<^verbatim>\<open>x0\<close> of \<open>n\<close> numbers. On arguments of
  other shapes NumPy broadcasts or raises; the model does not follow it there.
\<close>

text \<open>\<^verbatim>\<open>np.linalg.norm(np.matmul(A, x) - b)\<close>.\<close>

definition residual :: "'a arith \<Rightarrow> 'a list list \<Rightarrow> 'a list \<Rightarrow> 'a list \<Rightarrow> 'a" where
  "residual ar A b x = np_norm ar (map2 (fsub ar) (np_matmul ar A x) b)"

text \<open>
  The inner loop over \<^verbatim>\<open>j\<close>: \<^verbatim>\<open>sigma\<close> starts at \<^verbatim>\<open>0\<close> and accumulates
  \<^verbatim>\<open>A[i][j] * x[j]\<close> for every column \<^verbatim>\<open>j != i\<close>.
\<close>

definition row_sigma :: "'a arith \<Rightarrow> 'a list list \<Rightarrow> 'a list \<Rightarrow> nat \<Rightarrow> 'a" where
  "row_sigma ar A x i =
     fold (\<lambda>j sigma. if j \<noteq> i then fadd ar sigma (fmul ar (A ! i ! j) (x ! j)) else sigma)
       [0..<ncols A] (flit ar 0)"

text \<open>
  The body of the loop over \<^verbatim>\<open>i\<close>: the assignment
  \<^verbatim>\<open>x[i] = (1 - omega) * x[i] + (omega / A[i][i]) * (b[i] - sigma)\<close>.
  An assignment into a NumPy array converts the value to the element type of the array,
  which \<^verbatim>\<open>x\<close> has from \<^verbatim>\<open>x0\<close>: \<open>cast\<close> is that conversion (the identity for an
  \<^verbatim>\<open>x0\<close> of binary64 numbers, truncation for one of integers).
\<close>

definition update_row ::
    "'a arith \<Rightarrow> ('a \<Rightarrow> 'a) \<Rightarrow> 'a list list \<Rightarrow> 'a list \<Rightarrow> 'a \<Rightarrow> nat \<Rightarrow> 'a list \<Rightarrow> 'a list" where
  "update_row ar cast A b omega i x =
     x[i := cast (fadd ar (fmul ar (fsub ar (flit ar 1) omega) (x ! i))
                          (fmul ar (fdiv ar omega (A ! i ! i))
                                   (fsub ar (b ! i) (row_sigma ar A x i))))]"

text \<open>One pass of the loop over \<^verbatim>\<open>i\<close>: every row in increasing order, in place.\<close>

definition sweep ::
    "'a arith \<Rightarrow> ('a \<Rightarrow> 'a) \<Rightarrow> 'a list list \<Rightarrow> 'a list \<Rightarrow> 'a \<Rightarrow> 'a list \<Rightarrow> 'a list" where
  "sweep ar cast A b omega x = fold (update_row ar cast A b omega) [0..<nrows A] x"

text \<open>
  The \<^verbatim>\<open>while residual > tol\<close> loop: the residual is computed before the loop and
  after every sweep, and the loop ends as soon as the comparison is false. It has no
  iteration bound, so the model is a partial function: \<open>None\<close> stands for a loop that
  never ends.
\<close>

partial_function (option) relajacion_loop ::
    "'a arith \<Rightarrow> ('a \<Rightarrow> 'a) \<Rightarrow> 'a list list \<Rightarrow> 'a list \<Rightarrow> 'a \<Rightarrow> 'a \<Rightarrow> 'a list \<Rightarrow> 'a list option" where
  "relajacion_loop ar cast A b omega tol x =
     (if fgt ar (residual ar A b x) tol
      then relajacion_loop ar cast A b omega tol (sweep ar cast A b omega x)
      else Some x)"

text \<open>
  \<^verbatim>\<open>relajacion(A, b, x0, omega, tol)\<close>, as a function of the values of its arguments.
  The copy of \<^verbatim>\<open>x0\<close> is a value here; the store-level model below makes it explicit.
\<close>

definition relajacion ::
    "'a arith \<Rightarrow> ('a \<Rightarrow> 'a) \<Rightarrow> 'a list list \<Rightarrow> 'a list \<Rightarrow> 'a list \<Rightarrow> 'a \<Rightarrow> 'a \<Rightarrow> 'a list option" where
  "relajacion ar cast A b x0 omega tol = relajacion_loop ar cast A b omega tol x0"

subsection \<open>The solver over a store of arrays\<close>

text \<open>
  The same function with the arrays \<^verbatim>\<open>b\<close>, \<^verbatim>\<open>x0\<close> and \<^verbatim>\<open>x\<close> held in a
  store and passed by reference, so that the arguments may alias and every
  \<^verbatim>\<open>x[i] = ...\<close> is a write to the store. A reference is an index into the store;
  \<^verbatim>\<open>x0.copy()\<close> allocates a new cell.
\<close>

type_synonym ref = nat

definition np_copy :: "ref \<Rightarrow> 'a list list \<Rightarrow> ref \<times> 'a list list" where
  "np_copy p h = (length h, h @ [h ! p])"

definition update_row_st ::
    "'a arith \<Rightarrow> ('a \<Rightarrow> 'a) \<Rightarrow> 'a list list \<Rightarrow> ref \<Rightarrow> 'a \<Rightarrow> ref \<Rightarrow> nat
       \<Rightarrow> 'a list list \<Rightarrow> 'a list list" where
  "update_row_st ar cast A bp omega xp i h =
     h[xp := update_row ar cast A (h ! bp) omega i (h ! xp)]"

definition sweep_st ::
    "'a arith \<Rightarrow> ('a \<Rightarrow> 'a) \<Rightarrow> 'a list list \<Rightarrow> ref \<Rightarrow> 'a \<Rightarrow> ref
       \<Rightarrow> 'a list list \<Rightarrow> 'a list list" where
  "sweep_st ar cast A bp omega xp h =
     fold (update_row_st ar cast A bp omega xp) [0..<nrows A] h"

partial_function (option) relajacion_loop_st ::
    "'a arith \<Rightarrow> ('a \<Rightarrow> 'a) \<Rightarrow> 'a list list \<Rightarrow> ref \<Rightarrow> 'a \<Rightarrow> 'a \<Rightarrow> ref
       \<Rightarrow> 'a list list \<Rightarrow> (ref \<times> 'a list list) option" where
  "relajacion_loop_st ar cast A bp omega tol xp h =
     (if fgt ar (residual ar A (h ! bp) (h ! xp)) tol
      then relajacion_loop_st ar cast A bp omega tol xp (sweep_st ar cast A bp omega xp h)
      else Some (xp, h))"

definition relajacion_st ::
    "'a arith \<Rightarrow> ('a \<Rightarrow> 'a) \<Rightarrow> 'a list list \<Rightarrow> ref \<Rightarrow> ref \<Rightarrow> 'a \<Rightarrow> 'a
       \<Rightarrow> 'a list list \<Rightarrow> (ref \<times> 'a list list) option" where
  "relajacion_st ar cast A bp x0p omega tol h =
     (case np_copy x0p h of (xp, h1) \<Rightarrow> relajacion_loop_st ar cast A bp omega tol xp h1)"

subsection \<open>The coefficient builder \<^verbatim>\<open>trazador_cubico\<close>\<close>

text \<open>
  The argument \<^verbatim>\<open>points\<close> is any Python object. The check
  \<^verbatim>\<open>isinstance(points, (list, tuple))\<close> tells lists and tuples from everything else;
  a NumPy array of points is the ordered sequence that is neither. A point is a pair of
  numbers.
\<close>

datatype 'a pyobj =
  PyList "('a \<times> 'a) list" | PyTuple "('a \<times> 'a) list" | PyNdarray "('a \<times> 'a) list" | PyOther

text \<open>\<^verbatim>\<open>isinstance(points, (list, tuple))\<close>, and the elements of the sequence.\<close>

fun isinstance_list_tuple :: "'a pyobj \<Rightarrow> bool" where
  "isinstance_list_tuple (PyList ps) = True"
| "isinstance_list_tuple (PyTuple ps) = True"
| "isinstance_list_tuple (PyNdarray ps) = False"
| "isinstance_list_tuple PyOther = False"

fun items :: "'a pyobj \<Rightarrow> ('a \<times> 'a) list" where
  "items (PyList ps) = ps"
| "items (PyTuple ps) = ps"
| "items (PyNdarray ps) = ps"
| "items PyOther = []"

datatype error = ValueError string

definition msg_not_sequence :: string where
  "msg_not_sequence =
     [CHR 0x27] @ ''points'' @ [CHR 0x27] @ '' must be a list or tuple''"

definition msg_too_short :: string where
  "msg_too_short =
     ''The length of '' @ [CHR 0x27] @ ''points'' @ [CHR 0x27] @ '' must be greater than 1''"

text \<open>\<^verbatim>\<open>points[1:, 0] - points[:-1, 0]\<close> and \<^verbatim>\<open>points[1:, 1] - points[:-1, 1]\<close>.\<close>

definition hk_of :: "'a arith \<Rightarrow> ('a \<times> 'a) list \<Rightarrow> 'a list" where
  "hk_of ar ps = map2 (fsub ar) (map fst (tl ps)) (map fst (butlast ps))"

definition delta_yk_of :: "'a arith \<Rightarrow> ('a \<times> 'a) list \<Rightarrow> 'a list" where
  "delta_yk_of ar ps = map2 (fsub ar) (map snd (tl ps)) (map snd (butlast ps))"

text \<open>The row appended to \<^verbatim>\<open>A\<close> in iteration \<^verbatim>\<open>i\<close> of the first loop.\<close>

definition system_row :: "'a arith \<Rightarrow> 'a list \<Rightarrow> nat \<Rightarrow> nat \<Rightarrow> 'a list" where
  "system_row ar hk k i =
     (if i = 1
      then [fmul ar (flit ar 2) (fadd ar (hk ! (i - 1)) (hk ! i)), hk ! i]
             @ replicate (k - 3) (flit ar 0)
      else if i = k - 1
      then replicate (k - 3) (flit ar 0)
             @ [hk ! (i - 1), fmul ar (flit ar 2) (fadd ar (hk ! (i - 1)) (hk ! i))]
      else replicate (i - 2) (flit ar 0)
             @ [hk ! (i - 1), fmul ar (flit ar 2) (fadd ar (hk ! (i - 1)) (hk ! i)), hk ! i]
             @ replicate (k - 2 - i) (flit ar 0))"

definition system_A :: "'a arith \<Rightarrow> 'a list \<Rightarrow> 'a list list" where
  "system_A ar hk = map (system_row ar hk (length hk)) [1..<length hk]"

definition system_b :: "'a arith \<Rightarrow> 'a list \<Rightarrow> 'a list \<Rightarrow> 'a list" where
  "system_b ar hk delta_yk =
     map (\<lambda>i. fmul ar (flit ar 6)
                (fsub ar (fdiv ar (delta_yk ! i) (hk ! i))
                         (fdiv ar (delta_yk ! (i - 1)) (hk ! (i - 1)))))
       [1..<length hk]"

text \<open>
  The solve step and the assembly of \<^verbatim>\<open>sigmas\<close>: the solver is called with its
  defaults \<^verbatim>\<open>omega=0.5\<close> and \<^verbatim>\<open>tol=1e-8\<close> on \<^verbatim>\<open>x0 = np.zeros(b.shape)\<close>, an
  array of binary64 numbers (so nothing is converted on assignment), and a zero is put in
  front of and behind its result.
\<close>

definition inner_sigmas :: "'a arith \<Rightarrow> ('a \<times> 'a) list \<Rightarrow> 'a list option" where
  "inner_sigmas ar ps =
     (let hk = hk_of ar ps; delta_yk = delta_yk_of ar ps;
          A = system_A ar hk; b = system_b ar hk delta_yk;
          x0 = replicate (length b) (flit ar 0)
      in relajacion ar (\<lambda>v. v) A b x0 (flit ar (1 / 2)) (flit ar (1 / 10 ^ 8)))"

definition sigmas_of :: "'a arith \<Rightarrow> ('a \<times> 'a) list \<Rightarrow> 'a list option" where
  "sigmas_of ar ps = map_option (\<lambda>s. flit ar 0 # (s @ [flit ar 0])) (inner_sigmas ar ps)"

text \<open>The second loop: the four coefficient lists, from \<^verbatim>\<open>sigmas\<close>.\<close>

definition coefficients ::
    "'a arith \<Rightarrow> ('a \<times> 'a) list \<Rightarrow> 'a list \<Rightarrow> 'a list \<times> 'a list \<times> 'a list \<times> 'a list" where
  "coefficients ar ps sigmas =
     (let hk = hk_of ar ps; k = length hk; yk = map snd ps
      in (map (\<lambda>i. fdiv ar (fsub ar (sigmas ! (i + 1)) (sigmas ! i))
                            (fmul ar (flit ar 6) (hk ! i))) [0..<k - 1],
          map (\<lambda>i. fdiv ar (sigmas ! i) (flit ar 2)) [0..<k - 1],
          map (\<lambda>i. fsub ar (fdiv ar (fsub ar (yk ! (i + 1)) (yk ! i)) (hk ! i))
                            (fdiv ar (fadd ar (fmul ar (fmul ar (flit ar 2) (hk ! i)) (sigmas ! i))
                                              (fmul ar (hk ! i) (sigmas ! (i + 1))))
                                     (flit ar 6))) [0..<k - 1],
          map (\<lambda>i. yk ! i) [0..<k - 1]))"

text \<open>
  \<^verbatim>\<open>trazador_cubico(points)\<close>. The result is \<open>None\<close> when the solver does not
  return, \<open>Some (Inl e)\<close> when \<open>e\<close> is raised, and \<open>Some (Inr (a, b, c, d))\<close> when
  the four arrays are returned.
\<close>

definition trazador_cubico ::
    "'a arith \<Rightarrow> 'a pyobj \<Rightarrow> (error + 'a list \<times> 'a list \<times> 'a list \<times> 'a list) option" where
  "trazador_cubico ar points =
     (if \<not> isinstance_list_tuple points then Some (Inl (ValueError msg_not_sequence))
      else if length (items points) < 4 then Some (Inl (ValueError msg_too_short))
      else map_option (\<lambda>sigmas. Inr (coefficients ar (items points) sigmas))
             (sigmas_of ar (items points)))"


subsection \<open>Notions used in the statements\<close>

text \<open>
  A valid point sequence: at least four points, with strictly increasing abscissae.
\<close>

definition valid_points :: "(real \<times> real) list \<Rightarrow> bool" where
  "valid_points ps \<longleftrightarrow> 4 \<le> length ps \<and> sorted_wrt (<) (map fst ps)"

text \<open>Two sample inputs: four collinear points, and the four points of a zigzag.\<close>

abbreviation collinear_points :: "(real \<times> real) list" where
  "collinear_points \<equiv> [(0, 0), (1, 1), (2, 2), (3, 3)]"

abbreviation zigzag_points :: "(real \<times> real) list" where
  "zigzag_points \<equiv> [(0, 0), (1, 1), (2, 0), (3, - 1)]"


text \<open>
  A square matrix of reals whose rows are strictly diagonally dominant, with ratio
  \<open>rho\<close>: in every row the off-diagonal entries sum, in absolute value, to at most
  \<open>rho\<close> times the absolute value of the (non-zero) diagonal entry.
\<close>

definition dominant :: "real list list \<Rightarrow> real \<Rightarrow> bool" where
  "dominant A rho \<longleftrightarrow>
     (\<forall>i<length A. length (A ! i) = length A \<and> A ! i ! i \<noteq> 0
        \<and> (\<Sum>j\<in>{..<length A} - {i}. \<bar>A ! i ! j\<bar>) \<le> rho * \<bar>A ! i ! i\<bar>)"

text \<open>The first \<open>n\<close> row updates of a sweep.\<close>

definition sweep_upto ::
    "'a arith \<Rightarrow> ('a \<Rightarrow> 'a) \<Rightarrow> 'a list list \<Rightarrow> 'a list \<Rightarrow> 'a \<Rightarrow> nat \<Rightarrow> 'a list \<Rightarrow> 'a list" where
  "sweep_upto ar cast A b omega n x = fold (update_row ar cast A b omega) [0..<n] x"

section \<open>Properties\<close>

subsection \<open>A sweep, row by row\<close>

lemma sweep_upto_0: "sweep_upto ar cast A b omega 0 x = x"
  by (simp add: sweep_upto_def)

lemma sweep_upto_Suc:
  "sweep_upto ar cast A b omega (Suc n) x
     = update_row ar cast A b omega n (sweep_upto ar cast A b omega n x)"
  by (simp add: sweep_upto_def)

lemma sweep_eq_upto: "sweep ar cast A b omega x = sweep_upto ar cast A b omega (nrows A) x"
  by (simp add: sweep_def sweep_upto_def)

lemma length_update_row: "length (update_row ar cast A b omega i x) = length x"
  by (simp add: update_row_def)

lemma length_sweep_upto: "length (sweep_upto ar cast A b omega n x) = length x"
  by (induction n) (simp_all add: sweep_upto_0 sweep_upto_Suc length_update_row)

lemma length_sweep: "length (sweep ar cast A b omega x) = length x"
  by (simp add: sweep_eq_upto length_sweep_upto)

lemma length_funpow_sweep: "length ((sweep ar cast A b omega ^^ k) x) = length x"
  by (induction k) (simp_all add: length_sweep)

subsection \<open>The loop returns the first estimate that fails the test of the loop\<close>

lemma relajacion_loop_Some:
  assumes "relajacion_loop ar cast A b omega tol x = Some y"
  shows "\<exists>n. y = (sweep ar cast A b omega ^^ n) x \<and> \<not> fgt ar (residual ar A b y) tol
           \<and> (\<forall>j<n. fgt ar (residual ar A b ((sweep ar cast A b omega ^^ j) x)) tol)"
proof -
  let ?P = "\<lambda>ar cast A b omega tol x y.
      \<exists>n. y = (sweep ar cast A b omega ^^ n) x \<and> \<not> fgt ar (residual ar A b y) tol
           \<and> (\<forall>j<n. fgt ar (residual ar A b ((sweep ar cast A b omega ^^ j) x)) tol)"
  have "?P ar cast A b omega tol x y"
  proof (rule relajacion_loop.raw_induct
      [where P = ?P and xa = "((((((ar, cast), A), b), omega), tol), x)" and y = y,
        simplified])
    show "relajacion_loop ar cast A b omega tol x = Some y" by (rule assms)
  next
    fix f :: "'a arith \<Rightarrow> ('a \<Rightarrow> 'a) \<Rightarrow> 'a list list \<Rightarrow> 'a list \<Rightarrow> 'a \<Rightarrow> 'a \<Rightarrow> 'a list
                \<Rightarrow> 'a list option"
      and ar cast A b omega tol x y
    assume IH: "\<And>ar cast A b omega tol x y. f ar cast A b omega tol x = Some y \<Longrightarrow>
                  ?P ar cast A b omega tol x y"
      and step: "(if fgt ar (residual ar A b x) tol
                  then f ar cast A b omega tol (sweep ar cast A b omega x) else Some x)
                   = Some y"
    show "?P ar cast A b omega tol x y"
    proof (cases "fgt ar (residual ar A b x) tol")
      case False
      with step have "y = x" by simp
      with False show ?thesis by (intro exI [of _ 0]) simp
    next
      case True
      let ?x1 = "sweep ar cast A b omega x"
      from True step have "f ar cast A b omega tol ?x1 = Some y" by simp
      from IH [OF this] obtain n where n: "y = (sweep ar cast A b omega ^^ n) ?x1"
        "\<not> fgt ar (residual ar A b y) tol"
        "\<forall>j<n. fgt ar (residual ar A b ((sweep ar cast A b omega ^^ j) ?x1)) tol"
        by blast
      have "\<forall>j<Suc n. fgt ar (residual ar A b ((sweep ar cast A b omega ^^ j) x)) tol"
      proof (intro allI impI)
        fix j assume "j < Suc n"
        show "fgt ar (residual ar A b ((sweep ar cast A b omega ^^ j) x)) tol"
        proof (cases j)
          case 0
          with True show ?thesis by simp
        next
          case (Suc j')
          with \<open>j < Suc n\<close> n(3) show ?thesis by (simp add: funpow_swap1)
        qed
      qed
      with n(1,2) show ?thesis
        by (intro exI [of _ "Suc n"]) (simp add: funpow_swap1)
    qed
  qed
  then show ?thesis .
qed

lemma relajacion_loop_first:
  "\<not> fgt ar (residual ar A b ((sweep ar cast A b omega ^^ n) x)) tol \<Longrightarrow>
   (\<forall>j<n. fgt ar (residual ar A b ((sweep ar cast A b omega ^^ j) x)) tol) \<Longrightarrow>
   relajacion_loop ar cast A b omega tol x = Some ((sweep ar cast A b omega ^^ n) x)"
proof (induction n arbitrary: x)
  case 0
  then show ?case by (subst relajacion_loop.simps) simp
next
  case (Suc n)
  let ?x1 = "sweep ar cast A b omega x"
  from Suc.prems(2) have gt: "fgt ar (residual ar A b x) tol" by force
  have "relajacion_loop ar cast A b omega tol ?x1 = Some ((sweep ar cast A b omega ^^ n) ?x1)"
  proof (rule Suc.IH)
    show "\<not> fgt ar (residual ar A b ((sweep ar cast A b omega ^^ n) ?x1)) tol"
      using Suc.prems(1) by (simp add: funpow_swap1)
    show "\<forall>j<n. fgt ar (residual ar A b ((sweep ar cast A b omega ^^ j) ?x1)) tol"
    proof (intro allI impI)
      fix j assume "j < n"
      then have "Suc j < Suc n" by simp
      with Suc.prems(2)
      have "fgt ar (residual ar A b ((sweep ar cast A b omega ^^ Suc j) x)) tol" by blast
      then show "fgt ar (residual ar A b ((sweep ar cast A b omega ^^ j) ?x1)) tol"
        by (simp add: funpow_swap1)
    qed
  qed
  with gt show ?case
    by (subst relajacion_loop.simps) (simp add: funpow_swap1)
qed

lemma relajacion_Some_length:
  "relajacion ar cast A b x0 omega tol = Some x \<Longrightarrow> length x = length x0"
  using relajacion_loop_Some [of ar cast A b omega tol x0 x]
  by (auto simp: relajacion_def length_funpow_sweep)

subsection \<open>The vectors of spacings and differences, and the system\<close>

lemma length_hk_of: "length (hk_of ar ps) = length ps - 1"
  by (simp add: hk_of_def)

lemma hk_of_nth:
  "i < length ps - 1 \<Longrightarrow> hk_of ar ps ! i = fsub ar (fst (ps ! (i + 1))) (fst (ps ! i))"
  by (simp add: hk_of_def nth_tl nth_butlast)

lemma length_delta_yk_of: "length (delta_yk_of ar ps) = length ps - 1"
  by (simp add: delta_yk_of_def)

lemma delta_yk_of_nth:
  "i < length ps - 1 \<Longrightarrow>
     delta_yk_of ar ps ! i = fsub ar (snd (ps ! (i + 1))) (snd (ps ! i))"
  by (simp add: delta_yk_of_def nth_tl nth_butlast)

lemma length_system_A: "length (system_A ar hk) = length hk - 1"
  by (simp add: system_A_def)

lemma length_system_b: "length (system_b ar hk dy) = length hk - 1"
  by (simp add: system_b_def)

lemma length_system_row:
  "3 \<le> k \<Longrightarrow> 1 \<le> i \<Longrightarrow> i < k \<Longrightarrow> length (system_row ar hk k i) = k - 1"
  by (auto simp: system_row_def)

lemma system_row_nth:
  assumes "3 \<le> k" "1 \<le> i" "i < k" "j < k - 1"
  shows "system_row ar hk k i ! j =
           (if j + 1 = i then fmul ar (flit ar 2) (fadd ar (hk ! (i - 1)) (hk ! i))
            else if j + 2 = i then hk ! (i - 1)
            else if j = i then hk ! i
            else flit ar 0)"
  using assms by (auto simp: system_row_def nth_append nth_Cons')

lemma system_A_nth_row:
  "r < length hk - 1 \<Longrightarrow> system_A ar hk ! r = system_row ar hk (length hk) (Suc r)"
  by (simp add: system_A_def)

lemma length_system_A_row:
  "3 \<le> length hk \<Longrightarrow> r < length hk - 1 \<Longrightarrow> length (system_A ar hk ! r) = length hk - 1"
  by (simp add: system_A_nth_row length_system_row)

lemma system_A_nth:
  assumes "3 \<le> length hk" "r < length hk - 1" "c < length hk - 1"
  shows "system_A ar hk ! r ! c =
           (if c = r then fmul ar (flit ar 2) (fadd ar (hk ! r) (hk ! (r + 1)))
            else if c + 1 = r then hk ! r
            else if c = r + 1 then hk ! (r + 1)
            else flit ar 0)"
  using assms by (simp add: system_A_nth_row system_row_nth)

lemma system_b_nth:
  "r < length hk - 1 \<Longrightarrow> system_b ar hk dy ! r
     = fmul ar (flit ar 6)
         (fsub ar (fdiv ar (dy ! (r + 1)) (hk ! (r + 1))) (fdiv ar (dy ! r) (hk ! r)))"
  by (simp add: system_b_def)

subsection \<open>What the builder returns\<close>

lemma trazador_cubico_Inr:
  assumes "trazador_cubico ar obj = Some (Inr r)"
  shows "isinstance_list_tuple obj \<and> 4 \<le> length (items obj)
           \<and> (\<exists>sigmas. sigmas_of ar (items obj) = Some sigmas
                  \<and> r = coefficients ar (items obj) sigmas)"
  using assms by (auto simp: trazador_cubico_def split: if_splits)

lemma coefficients_lengths:
  "coefficients ar ps sigmas = (a, b, c, d) \<Longrightarrow>
     length a = length ps - 2 \<and> length b = length ps - 2
       \<and> length c = length ps - 2 \<and> length d = length ps - 2"
  by (auto simp: coefficients_def Let_def length_hk_of)

lemma coefficients_nth:
  assumes "coefficients ar ps sigmas = (a, b, c, d)" "i < length ps - 2"
  shows "a ! i = fdiv ar (fsub ar (sigmas ! (i + 1)) (sigmas ! i))
                         (fmul ar (flit ar 6) (hk_of ar ps ! i))"
    "b ! i = fdiv ar (sigmas ! i) (flit ar 2)"
    "c ! i = fsub ar (fdiv ar (delta_yk_of ar ps ! i) (hk_of ar ps ! i))
               (fdiv ar (fadd ar (fmul ar (fmul ar (flit ar 2) (hk_of ar ps ! i)) (sigmas ! i))
                                 (fmul ar (hk_of ar ps ! i) (sigmas ! (i + 1))))
                        (flit ar 6))"
    "d ! i = snd (ps ! i)"
  using assms by (auto simp: coefficients_def Let_def length_hk_of delta_yk_of_nth)

lemma sigmas_of_Some:
  assumes "sigmas_of ar ps = Some sigmas"
  shows "\<exists>s. inner_sigmas ar ps = Some s \<and> sigmas = flit ar 0 # (s @ [flit ar 0])
           \<and> length s = length ps - 2"
proof -
  from assms obtain s where s: "inner_sigmas ar ps = Some s"
    "sigmas = flit ar 0 # (s @ [flit ar 0])"
    by (auto simp: sigmas_of_def)
  from s(1) have "length s = length (system_b ar (hk_of ar ps) (delta_yk_of ar ps))"
    using relajacion_Some_length by (fastforce simp: inner_sigmas_def Let_def)
  then have "length s = length ps - 2" by (simp add: length_system_b length_hk_of)
  with s show ?thesis by blast
qed

subsection \<open>The solver writes to its own copy only\<close>

lemma update_row_st_frame:
  "length (update_row_st ar cast A bp omega xp i h) = length h"
  "p \<noteq> xp \<Longrightarrow> update_row_st ar cast A bp omega xp i h ! p = h ! p"
  by (simp_all add: update_row_st_def)

lemma fold_update_row_st_frame:
  "length (fold (update_row_st ar cast A bp omega xp) ks h) = length h
   \<and> (p \<noteq> xp \<longrightarrow> fold (update_row_st ar cast A bp omega xp) ks h ! p = h ! p)"
  by (induction ks arbitrary: h) (simp_all add: update_row_st_frame)

lemma sweep_st_frame:
  "length (sweep_st ar cast A bp omega xp h) = length h"
  "p \<noteq> xp \<Longrightarrow> sweep_st ar cast A bp omega xp h ! p = h ! p"
  using fold_update_row_st_frame [where ar = ar and cast = cast and A = A and bp = bp
      and omega = omega and xp = xp and ks = "[0..<nrows A]" and h = h and p = p]
  by (simp_all add: sweep_st_def)

lemma funpow_sweep_st_frame:
  "length ((sweep_st ar cast A bp omega xp ^^ n) h) = length h
   \<and> (p \<noteq> xp \<longrightarrow> (sweep_st ar cast A bp omega xp ^^ n) h ! p = h ! p)"
  by (induction n) (simp_all add: sweep_st_frame)

lemma fold_update_row_st_cell:
  assumes "bp \<noteq> xp" "xp < length h"
  shows "fold (update_row_st ar cast A bp omega xp) [0..<n] h
           = h[xp := sweep_upto ar cast A (h ! bp) omega n (h ! xp)]"
proof (induction n)
  case 0
  then show ?case by (simp add: sweep_upto_0)
next
  case (Suc n)
  then show ?case using assms
    by (simp add: update_row_st_def sweep_upto_Suc)
qed

lemma sweep_st_cell:
  assumes "bp \<noteq> xp" "xp < length h"
  shows "sweep_st ar cast A bp omega xp h = h[xp := sweep ar cast A (h ! bp) omega (h ! xp)]"
  using fold_update_row_st_cell [OF assms, where ar = ar and cast = cast and A = A
      and omega = omega and n = "nrows A"]
  by (simp add: sweep_st_def sweep_eq_upto)

lemma funpow_sweep_st_cell:
  assumes "bp \<noteq> xp" "xp < length h"
  shows "(sweep_st ar cast A bp omega xp ^^ n) h
           = h[xp := (sweep ar cast A (h ! bp) omega ^^ n) (h ! xp)]"
proof (induction n)
  case 0
  then show ?case by simp
next
  case (Suc n)
  let ?h = "h[xp := (sweep ar cast A (h ! bp) omega ^^ n) (h ! xp)]"
  have "sweep_st ar cast A bp omega xp ?h
          = ?h[xp := sweep ar cast A (?h ! bp) omega (?h ! xp)]"
    using assms by (intro sweep_st_cell) simp_all
  with Suc assms show ?case by simp
qed

lemma relajacion_loop_st_Some:
  assumes "relajacion_loop_st ar cast A bp omega tol xp h = Some r"
  shows "\<exists>n. r = (xp, (sweep_st ar cast A bp omega xp ^^ n) h)
           \<and> \<not> fgt ar (residual ar A ((sweep_st ar cast A bp omega xp ^^ n) h ! bp)
                                     ((sweep_st ar cast A bp omega xp ^^ n) h ! xp)) tol
           \<and> (\<forall>j<n. fgt ar (residual ar A ((sweep_st ar cast A bp omega xp ^^ j) h ! bp)
                                           ((sweep_st ar cast A bp omega xp ^^ j) h ! xp)) tol)"
proof -
  let ?P = "\<lambda>ar cast A bp omega tol xp h r.
      \<exists>n. r = (xp, (sweep_st ar cast A bp omega xp ^^ n) h)
           \<and> \<not> fgt ar (residual ar A ((sweep_st ar cast A bp omega xp ^^ n) h ! bp)
                                     ((sweep_st ar cast A bp omega xp ^^ n) h ! xp)) tol
           \<and> (\<forall>j<n. fgt ar (residual ar A ((sweep_st ar cast A bp omega xp ^^ j) h ! bp)
                                           ((sweep_st ar cast A bp omega xp ^^ j) h ! xp)) tol)"
  have "?P ar cast A bp omega tol xp h r"
  proof (rule relajacion_loop_st.raw_induct [where P = ?P])
    show "relajacion_loop_st ar cast A bp omega tol xp h = Some r" by (rule assms)
  next
    fix f :: "'a arith \<Rightarrow> ('a \<Rightarrow> 'a) \<Rightarrow> 'a list list \<Rightarrow> ref \<Rightarrow> 'a \<Rightarrow> 'a \<Rightarrow> ref
                \<Rightarrow> 'a list list \<Rightarrow> (ref \<times> 'a list list) option"
      and ar cast A bp omega tol xp h r
    assume IH: "\<And>ar cast A bp omega tol xp h r.
                  f ar cast A bp omega tol xp h = Some r \<Longrightarrow> ?P ar cast A bp omega tol xp h r"
      and step: "(if fgt ar (residual ar A (h ! bp) (h ! xp)) tol
                  then f ar cast A bp omega tol xp (sweep_st ar cast A bp omega xp h)
                  else Some (xp, h)) = Some r"
    show "?P ar cast A bp omega tol xp h r"
    proof (cases "fgt ar (residual ar A (h ! bp) (h ! xp)) tol")
      case False
      with step have "r = (xp, h)" by simp
      with False show ?thesis by (intro exI [of _ 0]) simp
    next
      case True
      let ?h1 = "sweep_st ar cast A bp omega xp h"
      from True step have "f ar cast A bp omega tol xp ?h1 = Some r" by simp
      from IH [OF this] obtain n where n:
        "r = (xp, (sweep_st ar cast A bp omega xp ^^ n) ?h1)"
        "\<not> fgt ar (residual ar A ((sweep_st ar cast A bp omega xp ^^ n) ?h1 ! bp)
                                 ((sweep_st ar cast A bp omega xp ^^ n) ?h1 ! xp)) tol"
        "\<forall>j<n. fgt ar (residual ar A ((sweep_st ar cast A bp omega xp ^^ j) ?h1 ! bp)
                                     ((sweep_st ar cast A bp omega xp ^^ j) ?h1 ! xp)) tol"
        by blast
      have "\<forall>j<Suc n. fgt ar (residual ar A ((sweep_st ar cast A bp omega xp ^^ j) h ! bp)
                                         ((sweep_st ar cast A bp omega xp ^^ j) h ! xp)) tol"
      proof (intro allI impI)
        fix j assume "j < Suc n"
        show "fgt ar (residual ar A ((sweep_st ar cast A bp omega xp ^^ j) h ! bp)
                                  ((sweep_st ar cast A bp omega xp ^^ j) h ! xp)) tol"
        proof (cases j)
          case 0
          with True show ?thesis by simp
        next
          case (Suc j')
          with \<open>j < Suc n\<close> n(3) show ?thesis by (simp add: funpow_swap1)
        qed
      qed
      with n(1,2) show ?thesis
        by (intro exI [of _ "Suc n"]) (simp add: funpow_swap1)
    qed
  qed
  then show ?thesis .
qed

lemma relajacion_st_frame:
  assumes x0p: "x0p < length h"
    and ret: "relajacion_st ar cast A bp x0p omega tol h = Some (xp, h')"
  shows "xp = length h" "length h' = Suc (length h)" "\<forall>p<length h. h' ! p = h ! p"
proof -
  from ret
  have "relajacion_loop_st ar cast A bp omega tol (length h) (h @ [h ! x0p]) = Some (xp, h')"
    by (simp add: relajacion_st_def np_copy_def)
  from relajacion_loop_st_Some [OF this] obtain n
    where r: "xp = length h"
      "h' = (sweep_st ar cast A bp omega (length h) ^^ n) (h @ [h ! x0p])"
    by auto
  show "xp = length h" by (rule r(1))
  show "length h' = Suc (length h)"
    using funpow_sweep_st_frame [where ar = ar and cast = cast and A = A and bp = bp
        and omega = omega and xp = "length h" and n = n and h = "h @ [h ! x0p]"] r(2)
    by simp
  show "\<forall>p<length h. h' ! p = h ! p"
  proof (intro allI impI)
    fix p assume p: "p < length h"
    then have "p \<noteq> length h" by simp
    with funpow_sweep_st_frame [where ar = ar and cast = cast and A = A and bp = bp
        and omega = omega and xp = "length h" and n = n and h = "h @ [h ! x0p]" and p = p]
      r(2)
    have "h' ! p = (h @ [h ! x0p]) ! p" by simp
    with p show "h' ! p = h ! p" by (simp add: nth_append)
  qed
qed

lemma relajacion_loop_st_first:
  assumes "bp \<noteq> xp" "xp < length h"
    and "\<not> fgt ar (residual ar A (h ! bp) ((sweep ar cast A (h ! bp) omega ^^ n) (h ! xp))) tol"
    and "\<forall>j<n. fgt ar (residual ar A (h ! bp)
                         ((sweep ar cast A (h ! bp) omega ^^ j) (h ! xp))) tol"
  shows "relajacion_loop_st ar cast A bp omega tol xp h
           = Some (xp, h[xp := (sweep ar cast A (h ! bp) omega ^^ n) (h ! xp)])"
  using assms
proof (induction n arbitrary: h)
  case 0
  then show ?case by (subst relajacion_loop_st.simps) simp
next
  case (Suc n)
  let ?b = "h ! bp" and ?x = "h ! xp"
  let ?h1 = "h[xp := sweep ar cast A ?b omega ?x]"
  from Suc.prems(4) have gt: "fgt ar (residual ar A ?b ?x) tol" by force
  have h1: "sweep_st ar cast A bp omega xp h = ?h1"
    by (rule sweep_st_cell [OF Suc.prems(1,2)])
  have cells: "?h1 ! bp = ?b" "?h1 ! xp = sweep ar cast A ?b omega ?x"
    using Suc.prems(1,2) by simp_all
  have "relajacion_loop_st ar cast A bp omega tol xp ?h1
          = Some (xp, ?h1[xp := (sweep ar cast A (?h1 ! bp) omega ^^ n) (?h1 ! xp)])"
  proof (rule Suc.IH)
    show "bp \<noteq> xp" by (rule Suc.prems(1))
    show "xp < length ?h1" using Suc.prems(2) by simp
    show "\<not> fgt ar (residual ar A (?h1 ! bp)
                      ((sweep ar cast A (?h1 ! bp) omega ^^ n) (?h1 ! xp))) tol"
      using Suc.prems(3) by (simp add: cells funpow_swap1)
    show "\<forall>j<n. fgt ar (residual ar A (?h1 ! bp)
                          ((sweep ar cast A (?h1 ! bp) omega ^^ j) (?h1 ! xp))) tol"
    proof (intro allI impI)
      fix j assume "j < n"
      then have "Suc j < Suc n" by simp
      with Suc.prems(4)
      have "fgt ar (residual ar A ?b ((sweep ar cast A ?b omega ^^ Suc j) ?x)) tol" by blast
      then show "fgt ar (residual ar A (?h1 ! bp)
                          ((sweep ar cast A (?h1 ! bp) omega ^^ j) (?h1 ! xp))) tol"
        by (simp add: cells funpow_swap1)
    qed
  qed
  then have "relajacion_loop_st ar cast A bp omega tol xp ?h1
          = Some (xp, h[xp := (sweep ar cast A ?b omega ^^ Suc n) ?x])"
    by (simp add: cells funpow_swap1)
  with gt h1 show ?case
    by (subst relajacion_loop_st.simps) simp
qed

lemma relajacion_st_of_relajacion:
  assumes "bp < length h" "x0p < length h"
    and "relajacion ar cast A (h ! bp) (h ! x0p) omega tol = Some x"
  shows "relajacion_st ar cast A bp x0p omega tol h = Some (length h, h @ [x])"
proof -
  let ?h1 = "h @ [h ! x0p]"
  from relajacion_loop_Some [OF assms(3) [unfolded relajacion_def]] obtain n
    where n: "x = (sweep ar cast A (h ! bp) omega ^^ n) (h ! x0p)"
      "\<not> fgt ar (residual ar A (h ! bp) x) tol"
      "\<forall>j<n. fgt ar (residual ar A (h ! bp)
                       ((sweep ar cast A (h ! bp) omega ^^ j) (h ! x0p))) tol"
    by blast
  have cells: "?h1 ! bp = h ! bp" "?h1 ! length h = h ! x0p"
    using assms(1) by (simp_all add: nth_append)
  have "relajacion_loop_st ar cast A bp omega tol (length h) ?h1
          = Some (length h,
              ?h1[length h := (sweep ar cast A (?h1 ! bp) omega ^^ n) (?h1 ! length h)])"
  proof (rule relajacion_loop_st_first)
    show "bp \<noteq> length h" using assms(1) by simp
    show "length h < length ?h1" by simp
    show "\<not> fgt ar (residual ar A (?h1 ! bp)
                      ((sweep ar cast A (?h1 ! bp) omega ^^ n) (?h1 ! length h))) tol"
      using n(1,2) by (simp add: cells)
    show "\<forall>j<n. fgt ar (residual ar A (?h1 ! bp)
                          ((sweep ar cast A (?h1 ! bp) omega ^^ j) (?h1 ! length h))) tol"
      using n(3) by (simp add: cells)
  qed
  then show ?thesis
    using n(1) by (simp add: relajacion_st_def np_copy_def cells)
qed

lemma relajacion_of_relajacion_st:
  assumes "bp < length h" "x0p < length h"
    and "relajacion_st ar cast A bp x0p omega tol h = Some (xp, h')"
  shows "relajacion ar cast A (h ! bp) (h ! x0p) omega tol = Some (h' ! xp)"
proof -
  let ?h1 = "h @ [h ! x0p]"
  let ?x = "\<lambda>n. (sweep ar cast A (h ! bp) omega ^^ n) (h ! x0p)"
  have ne: "bp \<noteq> length h" "length h < length ?h1" using assms(1) by simp_all
  have cells: "?h1 ! bp = h ! bp" "?h1 ! length h = h ! x0p"
    using assms(1) by (simp_all add: nth_append)
  have st: "\<And>n. (sweep_st ar cast A bp omega (length h) ^^ n) ?h1 = ?h1[length h := ?x n]"
    using funpow_sweep_st_cell [OF ne, where ar = ar and cast = cast and A = A
        and omega = omega]
    by (simp only: cells)
  have rd: "\<And>n. (?h1[length h := ?x n]) ! bp = h ! bp"
    "\<And>n. (?h1[length h := ?x n]) ! length h = ?x n"
    using assms(1) by (simp_all add: nth_append)
  from assms(3)
  have "relajacion_loop_st ar cast A bp omega tol (length h) ?h1 = Some (xp, h')"
    by (simp add: relajacion_st_def np_copy_def)
  from relajacion_loop_st_Some [OF this] obtain n
    where n: "xp = length h" "h' = ?h1[length h := ?x n]"
      "\<not> fgt ar (residual ar A (h ! bp) (?x n)) tol"
      "\<forall>j<n. fgt ar (residual ar A (h ! bp) (?x j)) tol"
    unfolding st rd by auto
  from relajacion_loop_first [OF n(3,4)] n(1,2) show ?thesis
    by (simp add: relajacion_def)
qed

subsection \<open>Sample runs in exact arithmetic\<close>

lemma exact_simps:
  "flit exact r = r" "fadd exact u v = u + v" "fsub exact u v = u - v"
  "fmul exact u v = u * v" "fdiv exact u v = u / v" "fpow exact u n = u ^ n"
  "fgt exact u v \<longleftrightarrow> v < u"
  "np_matmul exact A x = map (\<lambda>row. sum_list (map2 (*) row x)) A"
  "np_norm exact w = sqrt (sum_list (map (\<lambda>a. a\<^sup>2) w))"
  by (simp_all add: exact_def)

lemma fsub_exact: "fsub exact = (-)"
  by (simp add: exact_def)

lemma residual_exact_gt_iff:
  assumes "0 \<le> tol"
  shows "fgt exact (residual exact A b x) tol
           \<longleftrightarrow> tol\<^sup>2 < sum_list (map (\<lambda>a. a\<^sup>2)
                          (map2 (-) (map (\<lambda>row. sum_list (map2 (*) row x)) A) b))"
proof -
  let ?s = "sum_list (map (\<lambda>a. a\<^sup>2) (map2 (-) (map (\<lambda>row. sum_list (map2 (*) row x)) A) b))"
  have "tol < sqrt ?s \<longleftrightarrow> sqrt (tol\<^sup>2) < sqrt ?s" using assms by simp
  also have "\<dots> \<longleftrightarrow> tol\<^sup>2 < ?s" by (rule real_sqrt_less_iff)
  finally show ?thesis by (simp add: residual_def exact_simps fsub_exact)
qed

lemma collinear_system:
  "hk_of exact collinear_points = [1, 1, 1]"
  "delta_yk_of exact collinear_points = [1, 1, 1]"
  "system_A exact [1, 1, 1] = [[4, 1], [1, 4]]"
  "system_b exact [1, 1, 1] [1, 1, 1] = [0, 0]"
  by (simp_all add: hk_of_def delta_yk_of_def system_A_def system_b_def system_row_def
      exact_simps fsub_exact upt_rec numeral_2_eq_2 numeral_3_eq_3)

lemma collinear_sigmas:
  "sigmas_of exact collinear_points = Some [0, 0, 0, 0]"
proof -
  have "\<not> fgt exact (residual exact [[4, 1], [1, 4]] [0, 0] [0, 0]) (1 / 10 ^ 8)"
    by (subst residual_exact_gt_iff) simp_all
  then have "relajacion_loop exact (\<lambda>v. v) [[4, 1], [1, 4]] [0, 0] (1 / 2) (1 / 10 ^ 8) [0, 0]
          = Some [0, 0]"
    by (subst relajacion_loop.simps) simp
  then show ?thesis
    by (simp add: sigmas_of_def inner_sigmas_def collinear_system relajacion_def
        exact_simps numeral_2_eq_2)
qed

lemma collinear_result:
  "trazador_cubico exact (PyList collinear_points)
     = Some (Inr ([0, 0], [0, 0], [1, 1], [0, 1]))"
  by (simp add: trazador_cubico_def collinear_sigmas coefficients_def collinear_system
      exact_simps upt_rec numeral_2_eq_2)

lemma sample_run:
  "relajacion exact (\<lambda>v. v) [[4, 1], [1, 4]] [1, 2] [0, 0] (1 / 2) (1 / 2)
     = Some [81 / 512, 1423 / 4096]"
proof -
  let ?A = "[[4, 1], [1, 4]] :: real list list" and ?b = "[1, 2] :: real list"
  have s1: "sweep exact (\<lambda>v. v) ?A ?b (1 / 2) [0, 0] = [1 / 8, 15 / 64]"
    by (simp add: sweep_def nrows_def ncols_def update_row_def row_sigma_def exact_simps
        upt_rec numeral_2_eq_2)
  have s2: "sweep exact (\<lambda>v. v) ?A ?b (1 / 2) [1 / 8, 15 / 64] = [81 / 512, 1423 / 4096]"
    by (simp add: sweep_def nrows_def ncols_def update_row_def row_sigma_def exact_simps
        upt_rec numeral_2_eq_2)
  have r0: "fgt exact (residual exact ?A ?b [0, 0]) (1 / 2)"
    by (subst residual_exact_gt_iff) (simp_all add: power2_eq_square)
  have r1: "fgt exact (residual exact ?A ?b [1 / 8, 15 / 64]) (1 / 2)"
    by (subst residual_exact_gt_iff) (simp_all add: power2_eq_square)
  have r2: "\<not> fgt exact (residual exact ?A ?b [81 / 512, 1423 / 4096]) (1 / 2)"
    by (subst residual_exact_gt_iff) (simp_all add: power2_eq_square)
  have "relajacion_loop exact (\<lambda>v. v) ?A ?b (1 / 2) (1 / 2) [81 / 512, 1423 / 4096]
          = Some [81 / 512, 1423 / 4096]"
    using r2 by (subst relajacion_loop.simps) simp
  then have "relajacion_loop exact (\<lambda>v. v) ?A ?b (1 / 2) (1 / 2) [1 / 8, 15 / 64]
          = Some [81 / 512, 1423 / 4096]"
    using r1 s2 by (subst relajacion_loop.simps) simp
  then have "relajacion_loop exact (\<lambda>v. v) ?A ?b (1 / 2) (1 / 2) [0, 0]
          = Some [81 / 512, 1423 / 4096]"
    using r0 s1 by (subst relajacion_loop.simps) simp
  then show ?thesis by (simp add: relajacion_def)
qed

lemma sample_run_st:
  "relajacion_st exact (\<lambda>v. v) [[4, 1], [1, 4]] 0 1 (1 / 2) (1 / 2) [[1, 2], [0, 0]]
     = Some (2, [[1, 2], [0, 0], [81 / 512, 1423 / 4096]])"
  using relajacion_st_of_relajacion
    [where ar = exact and cast = "\<lambda>v. v" and bp = 0 and h = "[[1, 2], [0, 0]]" and x0p = 1
       and A = "[[4, 1], [1, 4]]" and omega = "1 / 2" and tol = "1 / 2"
       and x = "[81 / 512, 1423 / 4096]"]
    sample_run
  by simp



section \<open>Exact arithmetic: the loop ends on every valid sequence\<close>

text \<open>
  In exact arithmetic a sweep contracts the distance between two estimates when the
  matrix is strictly diagonally dominant and \<open>0 < omega \<le> 1\<close>, so the residual falls
  below any positive tolerance after finitely many sweeps; the system of a valid point
  sequence is dominant with ratio \<open>1 / 2\<close>. This is a fact about the reals. Rounded
  arithmetic need not reach the tolerance: the loop compares the residual with the
  absolute bound \<^verbatim>\<open>1e-8\<close>, whatever the size of the data.
\<close>

lemma exact_ops:
  "fadd exact = (+)" "fsub exact = (-)" "fmul exact = (*)" "fdiv exact = (/)"
  by (simp_all add: exact_def)

lemma fold_sigma_sum:
  "fold (\<lambda>j s. if j \<noteq> i then s + f j else s) [0..<n] (s0::real)
     = s0 + (\<Sum>j\<in>{..<n} - {i}. f j)"
proof (induction n)
  case 0
  show ?case by simp
next
  case (Suc n)
  show ?case
  proof (cases "n = i")
    case True
    then have "{..<Suc n} - {i} = {..<n} - {i}" by auto
    with True Suc show ?thesis by simp
  next
    case False
    then have "{..<Suc n} - {i} = insert n ({..<n} - {i})" by auto
    with False Suc show ?thesis by simp
  qed
qed

lemma row_sigma_sum: "row_sigma exact A x i = (\<Sum>j\<in>{..<ncols A} - {i}. A ! i ! j * x ! j)"
  unfolding row_sigma_def exact_ops by (simp add: exact_simps fold_sigma_sum)

lemma dominant_ncols: "dominant A rho \<Longrightarrow> ncols A = length A"
proof (cases A)
  case Nil
  then show ?thesis by (simp add: ncols_def)
next
  case (Cons r rs)
  assume "dominant A rho"
  then have "length (A ! 0) = length A"
    unfolding dominant_def using Cons by auto
  with Cons show ?thesis by (simp add: ncols_def)
qed

lemma update_row_nth_neq: "j \<noteq> i \<Longrightarrow> update_row exact (\<lambda>v. v) A b omega i x ! j = x ! j"
  by (simp add: update_row_def exact_simps)

lemma update_row_nth_eq:
  "i < length x \<Longrightarrow> update_row exact (\<lambda>v. v) A b omega i x ! i
     = (1 - omega) * x ! i + (omega / A ! i ! i) * (b ! i - row_sigma exact A x i)"
  by (simp add: update_row_def exact_simps)

lemma sweep_upto_nth_ge: "n \<le> j \<Longrightarrow> sweep_upto exact (\<lambda>v. v) A b omega n x ! j = x ! j"
  by (induction n) (simp_all add: sweep_upto_0 sweep_upto_Suc update_row_nth_neq)

lemma sweep_upto_nth_lt:
  "j < n \<Longrightarrow> sweep_upto exact (\<lambda>v. v) A b omega n x ! j = sweep_upto exact (\<lambda>v. v) A b omega (Suc j) x ! j"
proof (induction n)
  case 0
  then show ?case by simp
next
  case (Suc n)
  show ?case
  proof (cases "j = n")
    case True
    then show ?thesis by simp
  next
    case False
    with Suc.prems have "j < n" by simp
    with Suc.IH False show ?thesis
      by (simp add: sweep_upto_Suc update_row_nth_neq)
  qed
qed

lemma sweep_upto_Suc_nth:
  "i < length x \<Longrightarrow> sweep_upto exact (\<lambda>v. v) A b omega (Suc i) x ! i
     = (1 - omega) * x ! i
       + (omega / A ! i ! i) * (b ! i - row_sigma exact A (sweep_upto exact (\<lambda>v. v) A b omega i x) i)"
  by (simp add: sweep_upto_Suc update_row_nth_eq length_sweep_upto sweep_upto_nth_ge)

lemma weighted_sum_bound:
  fixes w e :: "nat \<Rightarrow> real"
  assumes "\<forall>j\<in>J. \<bar>e j\<bar> \<le> D"
  shows "\<bar>\<Sum>j\<in>J. w j * e j\<bar> \<le> (\<Sum>j\<in>J. \<bar>w j\<bar>) * D"
proof -
  have "\<bar>\<Sum>j\<in>J. w j * e j\<bar> \<le> (\<Sum>j\<in>J. \<bar>w j * e j\<bar>)"
    by (rule sum_abs)
  also have "\<dots> \<le> (\<Sum>j\<in>J. \<bar>w j\<bar> * D)"
  proof (rule sum_mono)
    fix j assume "j \<in> J"
    with assms have "\<bar>e j\<bar> \<le> D" by blast
    then show "\<bar>w j * e j\<bar> \<le> \<bar>w j\<bar> * D"
      by (simp add: abs_mult mult_left_mono)
  qed
  also have "\<dots> = (\<Sum>j\<in>J. \<bar>w j\<bar>) * D"
    by (simp add: sum_distrib_right)
  finally show ?thesis .
qed

lemma update_row_diff:
  assumes i: "i < length u" and len: "length v = length u" and nc: "ncols A = length u"
    and close: "\<forall>j<length u. \<bar>u ! j - v ! j\<bar> \<le> D"
    and dom: "(\<Sum>j\<in>{..<length u} - {i}. \<bar>A ! i ! j\<bar>) \<le> rho * \<bar>A ! i ! i\<bar>"
    and nz: "A ! i ! i \<noteq> 0" and om: "0 < omega" "omega \<le> 1"
  shows "\<bar>update_row exact (\<lambda>v. v) A b omega i u ! i - update_row exact (\<lambda>v. v) A b omega i v ! i\<bar>
           \<le> (1 - omega + omega * rho) * D"
proof -
  let ?J = "{..<length u} - {i}"
  let ?S = "\<Sum>j\<in>?J. A ! i ! j * (u ! j - v ! j)"
  from close i have D0: "0 \<le> D" by (meson abs_ge_zero order_trans)
  have eq: "update_row exact (\<lambda>v. v) A b omega i u ! i - update_row exact (\<lambda>v. v) A b omega i v ! i
              = (1 - omega) * (u ! i - v ! i) - (omega / A ! i ! i) * ?S"
    using i len
    by (simp add: update_row_nth_eq row_sigma_sum nc sum_subtractf right_diff_distrib)
  have "\<bar>?S\<bar> \<le> (\<Sum>j\<in>?J. \<bar>A ! i ! j\<bar>) * D"
    by (rule weighted_sum_bound) (use close in auto)
  also have "\<dots> \<le> (rho * \<bar>A ! i ! i\<bar>) * D"
    using dom D0 by (rule mult_right_mono)
  finally have S: "\<bar>?S\<bar> \<le> rho * \<bar>A ! i ! i\<bar> * D" .
  have "\<bar>(omega / A ! i ! i) * ?S\<bar> = (omega / \<bar>A ! i ! i\<bar>) * \<bar>?S\<bar>"
    using om by (simp add: abs_mult)
  also have "\<dots> \<le> (omega / \<bar>A ! i ! i\<bar>) * (rho * \<bar>A ! i ! i\<bar> * D)"
    using S om nz by (intro mult_left_mono) simp_all
  also have "\<dots> = omega * rho * D"
    using nz by simp
  finally have second: "\<bar>(omega / A ! i ! i) * ?S\<bar> \<le> omega * rho * D" .
  have "\<bar>(1 - omega) * (u ! i - v ! i)\<bar> = (1 - omega) * \<bar>u ! i - v ! i\<bar>"
    using om by (simp add: abs_mult)
  also have "\<dots> \<le> (1 - omega) * D"
    using close i om by (intro mult_left_mono) simp_all
  finally have first: "\<bar>(1 - omega) * (u ! i - v ! i)\<bar> \<le> (1 - omega) * D" .
  have "\<bar>(1 - omega) * (u ! i - v ! i) - (omega / A ! i ! i) * ?S\<bar>
          \<le> \<bar>(1 - omega) * (u ! i - v ! i)\<bar> + \<bar>(omega / A ! i ! i) * ?S\<bar>"
    by (rule abs_triangle_ineq4)
  also have "\<dots> \<le> (1 - omega) * D + omega * rho * D"
    using first second by (rule add_mono)
  also have "\<dots> = (1 - omega + omega * rho) * D"
    by (simp add: algebra_simps)
  finally show ?thesis by (simp only: eq)
qed

lemma dominantD:
  assumes "dominant A rho" "i < length A"
  shows "length (A ! i) = length A" "A ! i ! i \<noteq> 0"
    "(\<Sum>j\<in>{..<length A} - {i}. \<bar>A ! i ! j\<bar>) \<le> rho * \<bar>A ! i ! i\<bar>"
  using assms unfolding dominant_def by blast+

lemma sweep_upto_contract:
  assumes dom: "dominant A rho" and rho: "0 \<le> rho" "rho \<le> 1"
    and len: "length u = length A" "length v = length A"
    and om: "0 < omega" "omega \<le> 1" and D0: "0 \<le> D"
    and close: "\<forall>j<length A. \<bar>u ! j - v ! j\<bar> \<le> D"
  shows "n \<le> length A \<Longrightarrow>
         \<forall>j<length A. \<bar>sweep_upto exact (\<lambda>v. v) A b omega n u ! j - sweep_upto exact (\<lambda>v. v) A b omega n v ! j\<bar>
            \<le> (if j < n then (1 - omega + omega * rho) * D else D)"
proof (induction n)
  case 0
  with close show ?case by (simp add: sweep_upto_0)
next
  case (Suc n)
  let ?q = "1 - omega + omega * rho"
  let ?u = "sweep_upto exact (\<lambda>v. v) A b omega n u" and ?v = "sweep_upto exact (\<lambda>v. v) A b omega n v"
  from Suc.prems have n: "n < length A" by simp
  have "omega * rho \<le> omega * 1" using om rho by (intro mult_left_mono) simp_all
  then have q1: "?q \<le> 1" by simp
  have "?q * D \<le> 1 * D" using q1 D0 by (rule mult_right_mono)
  then have qD: "?q * D \<le> D" by simp
  from Suc.IH n
  have IH: "\<forall>j<length A. \<bar>?u ! j - ?v ! j\<bar> \<le> (if j < n then ?q * D else D)" by simp
  have all: "\<forall>j<length ?u. \<bar>?u ! j - ?v ! j\<bar> \<le> D"
    using IH qD by (auto simp: length_sweep_upto len intro: order_trans)
  have new: "\<bar>update_row exact (\<lambda>v. v) A b omega n ?u ! n - update_row exact (\<lambda>v. v) A b omega n ?v ! n\<bar> \<le> ?q * D"
  proof (rule update_row_diff)
    show "n < length ?u" using n by (simp add: length_sweep_upto len)
    show "length ?v = length ?u" by (simp add: length_sweep_upto len)
    show "ncols A = length ?u" using dominant_ncols [OF dom] by (simp add: length_sweep_upto len)
    show "\<forall>j<length ?u. \<bar>?u ! j - ?v ! j\<bar> \<le> D" by (rule all)
    show "(\<Sum>j\<in>{..<length ?u} - {n}. \<bar>A ! n ! j\<bar>) \<le> rho * \<bar>A ! n ! n\<bar>"
      using dominantD(3) [OF dom n] by (simp add: length_sweep_upto len)
    show "A ! n ! n \<noteq> 0" by (rule dominantD(2) [OF dom n])
    show "0 < omega" "omega \<le> 1" by (rule om)+
  qed
  show ?case
  proof (intro allI impI)
    fix j assume j: "j < length A"
    show "\<bar>sweep_upto exact (\<lambda>v. v) A b omega (Suc n) u ! j - sweep_upto exact (\<lambda>v. v) A b omega (Suc n) v ! j\<bar>
            \<le> (if j < Suc n then ?q * D else D)"
    proof (cases "j = n")
      case True
      with new show ?thesis by (simp add: sweep_upto_Suc)
    next
      case False
      with IH j show ?thesis
        by (auto simp: sweep_upto_Suc update_row_nth_neq)
    qed
  qed
qed

lemma sweep_contract:
  assumes "dominant A rho" "0 \<le> rho" "rho \<le> 1"
    "length u = length A" "length v = length A"
    "0 < omega" "omega \<le> 1" "0 \<le> D"
    "\<forall>j<length A. \<bar>u ! j - v ! j\<bar> \<le> D"
  shows "\<forall>j<length A. \<bar>sweep exact (\<lambda>v. v) A b omega u ! j - sweep exact (\<lambda>v. v) A b omega v ! j\<bar>
            \<le> (1 - omega + omega * rho) * D"
  using sweep_upto_contract [OF assms, of "length A" b]
  by (simp add: sweep_eq_upto nrows_def)

lemma sweep_steps_shrink:
  assumes dom: "dominant A rho" and rho: "0 \<le> rho" "rho \<le> 1"
    and len: "length x = length A"
    and om: "0 < omega" "omega \<le> 1" and D0: "0 \<le> D"
    and first: "\<forall>j<length A. \<bar>sweep exact (\<lambda>v. v) A b omega x ! j - x ! j\<bar> \<le> D"
  shows "\<forall>j<length A. \<bar>(sweep exact (\<lambda>v. v) A b omega ^^ Suc k) x ! j - (sweep exact (\<lambda>v. v) A b omega ^^ k) x ! j\<bar>
            \<le> (1 - omega + omega * rho) ^ k * D"
proof (induction k)
  case 0
  with first show ?case by simp
next
  case (Suc k)
  let ?q = "1 - omega + omega * rho"
  have q0: "0 \<le> ?q" using om rho by (simp add: add_nonneg_nonneg)
  have "\<forall>j<length A. \<bar>sweep exact (\<lambda>v. v) A b omega ((sweep exact (\<lambda>v. v) A b omega ^^ Suc k) x) ! j
            - sweep exact (\<lambda>v. v) A b omega ((sweep exact (\<lambda>v. v) A b omega ^^ k) x) ! j\<bar> \<le> ?q * (?q ^ k * D)"
  proof (rule sweep_contract [OF dom rho _ _ om])
    show "length ((sweep exact (\<lambda>v. v) A b omega ^^ Suc k) x) = length A"
      by (simp only: length_funpow_sweep len)
    show "length ((sweep exact (\<lambda>v. v) A b omega ^^ k) x) = length A"
      by (simp only: length_funpow_sweep len)
    show "0 \<le> ?q ^ k * D" using q0 D0 by simp
    show "\<forall>j<length A. \<bar>(sweep exact (\<lambda>v. v) A b omega ^^ Suc k) x ! j - (sweep exact (\<lambda>v. v) A b omega ^^ k) x ! j\<bar>
            \<le> ?q ^ k * D" by (rule Suc.IH)
  qed
  then show ?case by (simp add: mult.assoc)
qed

lemma sum_list_map2_nth:
  fixes r x :: "real list"
  assumes "length r = length x"
  shows "sum_list (map2 (*) r x) = (\<Sum>j<length x. r ! j * x ! j)"
proof -
  have "sum_list (map2 (*) r x) = (\<Sum>j = 0..<length (map2 (*) r x). map2 (*) r x ! j)"
    by (rule sum_list_sum_nth)
  also have "\<dots> = (\<Sum>j = 0..<length x. r ! j * x ! j)"
    using assms by (intro sum.cong) simp_all
  finally show ?thesis by (simp add: atLeast0LessThan)
qed

lemma matmul_nth:
  assumes "i < length A" "length (A ! i) = length x"
  shows "np_matmul exact A x ! i = (\<Sum>j<length x. A ! i ! j * x ! j)"
  using assms by (simp add: exact_simps sum_list_map2_nth)

lemma length_matmul: "length (np_matmul exact A x) = length A"
  by (simp add: exact_simps)

lemma norm2_le:
  assumes bound: "\<forall>i<length v. \<bar>v ! i\<bar> \<le> E" and tol: "0 \<le> tol"
    and small: "real (length v) * E\<^sup>2 \<le> tol\<^sup>2"
  shows "np_norm exact v \<le> tol"
proof -
  have "sum_list (map (\<lambda>a. a\<^sup>2) v) = (\<Sum>i = 0..<length v. (v ! i)\<^sup>2)"
    by (simp add: sum_list_sum_nth)
  also have "\<dots> \<le> (\<Sum>i = 0..<length v. E\<^sup>2)"
  proof (rule sum_mono)
    fix i assume "i \<in> {0..<length v}"
    with bound have "\<bar>v ! i\<bar> \<le> E" by simp
    then have "\<bar>v ! i\<bar>\<^sup>2 \<le> E\<^sup>2" by (intro power_mono) simp_all
    then show "(v ! i)\<^sup>2 \<le> E\<^sup>2" by simp
  qed
  also have "\<dots> = real (length v) * E\<^sup>2" by simp
  finally have "sum_list (map (\<lambda>a. a\<^sup>2) v) \<le> tol\<^sup>2" using small by simp
  then show ?thesis unfolding exact_simps using tol by (intro real_le_lsqrt) simp_all
qed

lemma residual_le:
  assumes len: "length b = length A"
    and bound: "\<forall>i<length A. \<bar>np_matmul exact A x ! i - b ! i\<bar> \<le> E" and tol: "0 \<le> tol"
    and small: "real (length A) * E\<^sup>2 \<le> tol\<^sup>2"
  shows "residual exact A b x \<le> tol"
  unfolding residual_def fsub_exact
proof (rule norm2_le [where E = E])
  show "\<forall>i<length (map2 (-) (np_matmul exact A x) b). \<bar>map2 (-) (np_matmul exact A x) b ! i\<bar> \<le> E"
    using bound len by (simp add: length_matmul)
  show "0 \<le> tol" by (rule tol)
  show "real (length (map2 (-) (np_matmul exact A x) b)) * E\<^sup>2 \<le> tol\<^sup>2"
    using small len by (simp add: length_matmul)
qed

lemma residual_row_after_sweep:
  assumes dom: "dominant A rho" and rho: "0 \<le> rho" "rho \<le> 1"
    and len: "length x = length A"
    and om: "0 < omega" "omega \<le> 1" and i: "i < length A"
    and step: "\<forall>j<length A. \<bar>sweep exact (\<lambda>v. v) A b omega x ! j - x ! j\<bar> \<le> D"
  shows "\<bar>np_matmul exact A (sweep exact (\<lambda>v. v) A b omega x) ! i - b ! i\<bar> \<le> (\<bar>A ! i ! i\<bar> / omega) * D"
proof -
  let ?m = "length A"
  let ?x' = "sweep exact (\<lambda>v. v) A b omega x"
  let ?y = "sweep_upto exact (\<lambda>v. v) A b omega i x"
  let ?J = "{..<?m} - {i}"
  let ?a = "A ! i ! i"
  from step i have D0: "0 \<le> D" by (meson abs_ge_zero order_trans)
  have nz: "?a \<noteq> 0" by (rule dominantD(2) [OF dom i])
  have lenx': "length ?x' = ?m" by (simp add: length_sweep len)
  have rowlen: "length (A ! i) = length ?x'" using dominantD(1) [OF dom i] lenx' by simp
  have nc: "ncols A = ?m" by (rule dominant_ncols [OF dom])
  have x'i: "?x' ! i = (1 - omega) * x ! i + (omega / ?a) * (b ! i - (\<Sum>j\<in>?J. A ! i ! j * ?y ! j))"
    using i len sweep_upto_nth_lt [of i ?m A b omega x]
    by (simp add: sweep_eq_upto nrows_def sweep_upto_Suc_nth row_sigma_sum nc)
  have y: "\<And>j. j \<in> ?J \<Longrightarrow> ?y ! j = (if j < i then ?x' ! j else x ! j)"
  proof -
    fix j assume "j \<in> ?J"
    then have j: "j < ?m" "j \<noteq> i" by auto
    show "?y ! j = (if j < i then ?x' ! j else x ! j)"
    proof (cases "j < i")
      case True
      have "?y ! j = sweep_upto exact (\<lambda>v. v) A b omega (Suc j) x ! j"
        using True by (rule sweep_upto_nth_lt)
      also have "\<dots> = ?x' ! j"
        using sweep_upto_nth_lt [of j ?m A b omega x] j by (simp add: sweep_eq_upto nrows_def)
      finally show ?thesis using True by simp
    next
      case False
      then show ?thesis by (simp add: sweep_upto_nth_ge)
    qed
  qed
  have mm: "np_matmul exact A ?x' ! i = ?a * ?x' ! i + (\<Sum>j\<in>?J. A ! i ! j * ?x' ! j)"
  proof -
    have "np_matmul exact A ?x' ! i = (\<Sum>j<?m. A ! i ! j * ?x' ! j)"
      using matmul_nth [OF i rowlen] lenx' by simp
    also have "\<dots> = ?a * ?x' ! i + (\<Sum>j\<in>{..<?m} - {i}. A ! i ! j * ?x' ! j)"
      using i by (intro sum.remove) simp_all
    finally show ?thesis .
  qed
  let ?T = "\<Sum>j\<in>?J. A ! i ! j * ?y ! j"
  let ?S = "\<Sum>j\<in>?J. A ! i ! j * (?x' ! j - ?y ! j)"
  from x'i have "(omega / ?a) * (b ! i - ?T) = ?x' ! i - (1 - omega) * x ! i" by simp
  then have "(?a / omega) * ((omega / ?a) * (b ! i - ?T))
               = (?a / omega) * (?x' ! i - (1 - omega) * x ! i)" by simp
  then have bi: "b ! i = ?T + (?a / omega) * (?x' ! i - (1 - omega) * x ! i)"
    using nz om by simp
  have res: "np_matmul exact A ?x' ! i - b ! i = ?S + ?a * (1 - 1 / omega) * (?x' ! i - x ! i)"
  proof -
    have "?S = (\<Sum>j\<in>?J. A ! i ! j * ?x' ! j) - ?T"
      by (simp add: right_diff_distrib sum_subtractf)
    moreover have "?a * ?x' ! i - (?a / omega) * (?x' ! i - (1 - omega) * x ! i)
                     = ?a * (1 - 1 / omega) * (?x' ! i - x ! i)"
      using om by (simp add: field_simps)
    ultimately show ?thesis using mm bi by simp
  qed
  have "\<bar>?S\<bar> \<le> (\<Sum>j\<in>?J. \<bar>A ! i ! j\<bar>) * D"
  proof (rule weighted_sum_bound, rule ballI)
    fix j assume jJ: "j \<in> ?J"
    then have j: "j < ?m" by simp
    show "\<bar>?x' ! j - ?y ! j\<bar> \<le> D"
    proof (cases "j < i")
      case True
      with y [OF jJ] D0 show ?thesis by simp
    next
      case False
      with y [OF jJ] step j show ?thesis by simp
    qed
  qed
  also have "\<dots> \<le> (rho * \<bar>?a\<bar>) * D"
    using dominantD(3) [OF dom i] D0 by (rule mult_right_mono)
  also have "\<dots> \<le> (1 * \<bar>?a\<bar>) * D"
    using rho D0 by (intro mult_right_mono) simp_all
  finally have S: "\<bar>?S\<bar> \<le> \<bar>?a\<bar> * D" by simp
  have "\<bar>?a * (1 - 1 / omega) * (?x' ! i - x ! i)\<bar>
          = \<bar>?a\<bar> * (1 / omega - 1) * \<bar>?x' ! i - x ! i\<bar>"
  proof -
    have "1 - 1 / omega \<le> 0" using om by (simp add: field_simps)
    then have "\<bar>1 - 1 / omega\<bar> = 1 / omega - 1" by simp
    then show ?thesis by (simp add: abs_mult)
  qed
  also have "\<dots> \<le> \<bar>?a\<bar> * (1 / omega - 1) * D"
  proof (rule mult_left_mono)
    show "\<bar>?x' ! i - x ! i\<bar> \<le> D" using step i by simp
    have "0 \<le> 1 / omega - 1" using om by (simp add: field_simps)
    then show "0 \<le> \<bar>?a\<bar> * (1 / omega - 1)" by simp
  qed
  finally have R: "\<bar>?a * (1 - 1 / omega) * (?x' ! i - x ! i)\<bar> \<le> \<bar>?a\<bar> * (1 / omega - 1) * D" .
  have "\<bar>np_matmul exact A ?x' ! i - b ! i\<bar> \<le> \<bar>?S\<bar> + \<bar>?a * (1 - 1 / omega) * (?x' ! i - x ! i)\<bar>"
    unfolding res by (rule abs_triangle_ineq)
  also have "\<dots> \<le> \<bar>?a\<bar> * D + \<bar>?a\<bar> * (1 / omega - 1) * D"
    using S R by (rule add_mono)
  also have "\<dots> = (\<bar>?a\<bar> / omega) * D"
    by (simp add: algebra_simps)
  finally show ?thesis .
qed

lemma relajacion_loop_terminates:
  assumes "residual exact A b ((sweep exact (\<lambda>v. v) A b omega ^^ k) x) \<le> tol"
  shows "\<exists>n\<le>k. relajacion_loop exact (\<lambda>v. v) A b omega tol x
                  = Some ((sweep exact (\<lambda>v. v) A b omega ^^ n) x)
             \<and> residual exact A b ((sweep exact (\<lambda>v. v) A b omega ^^ n) x) \<le> tol"
proof -
  let ?r = "\<lambda>j. residual exact A b ((sweep exact (\<lambda>v. v) A b omega ^^ j) x)"
  define n where "n = (LEAST j. ?r j \<le> tol)"
  have le: "?r n \<le> tol"
    unfolding n_def using assms by (rule LeastI)
  have "n \<le> k" unfolding n_def using assms by (rule Least_le)
  moreover have "\<forall>j<n. fgt exact (?r j) tol"
  proof (intro allI impI)
    fix j assume "j < n"
    then have "\<not> ?r j \<le> tol"
      unfolding n_def by (rule not_less_Least)
    then show "fgt exact (?r j) tol" by (simp add: exact_simps)
  qed
  moreover from le have "\<not> fgt exact (?r n) tol" by (simp add: exact_simps)
  ultimately have "n \<le> k \<and> relajacion_loop exact (\<lambda>v. v) A b omega tol x
                  = Some ((sweep exact (\<lambda>v. v) A b omega ^^ n) x)"
    using relajacion_loop_first [where ar = exact and cast = "\<lambda>v. v" and A = A and b = b
        and omega = omega and n = n and x = x and tol = tol] by simp
  with le show ?thesis by blast
qed

lemma sor_converges:
  assumes dom: "dominant A rho" and rho: "0 \<le> rho" "rho < 1"
    and lenb: "length b = length A" and lenx: "length x0 = length A"
    and om: "0 < omega" "omega \<le> 1" and tol: "0 < tol"
  shows "\<exists>k. residual exact A b ((sweep exact (\<lambda>v. v) A b omega ^^ k) x0) \<le> tol"
proof -
  let ?m = "length A"
  let ?q = "1 - omega + omega * rho"
  define D where "D = (\<Sum>j<?m. \<bar>sweep exact (\<lambda>v. v) A b omega x0 ! j - x0 ! j\<bar>)"
  define K where "K = (\<Sum>i<?m. \<bar>A ! i ! i\<bar>) + 1"
  define eps where "eps = tol * omega / ((real ?m + 1) * K * (D + 1))"
  have D0: "0 \<le> D" unfolding D_def by (rule sum_nonneg) simp
  have K0: "0 < K" unfolding K_def by (simp add: add_nonneg_pos sum_nonneg)
  have Kge: "\<And>i. i < ?m \<Longrightarrow> \<bar>A ! i ! i\<bar> \<le> K"
  proof -
    fix i assume "i < ?m"
    then have "\<bar>A ! i ! i\<bar> \<le> (\<Sum>i<?m. \<bar>A ! i ! i\<bar>)"
      by (intro member_le_sum) simp_all
    then show "\<bar>A ! i ! i\<bar> \<le> K" unfolding K_def by simp
  qed
  have first: "\<forall>j<?m. \<bar>sweep exact (\<lambda>v. v) A b omega x0 ! j - x0 ! j\<bar> \<le> D"
  proof (intro allI impI)
    fix j assume "j < ?m"
    then show "\<bar>sweep exact (\<lambda>v. v) A b omega x0 ! j - x0 ! j\<bar> \<le> D"
      unfolding D_def
      by (intro member_le_sum [where f = "\<lambda>j. \<bar>sweep exact (\<lambda>v. v) A b omega x0 ! j - x0 ! j\<bar>"]) simp_all
  qed
  have eps0: "0 < eps" unfolding eps_def using tol om K0 D0 by simp
  have "omega * rho < omega * 1" using om rho by (intro mult_strict_left_mono) simp_all
  then have q1: "?q < 1" by simp
  have q0: "0 \<le> ?q" using om rho by (simp add: add_nonneg_nonneg)
  from real_arch_pow_inv [OF eps0 q1] obtain k where k: "?q ^ k < eps" by blast
  let ?xk = "(sweep exact (\<lambda>v. v) A b omega ^^ k) x0"
  let ?E = "tol / (real ?m + 1)"
  have rho1: "rho \<le> 1" using rho by simp
  have steps: "\<forall>j<?m. \<bar>sweep exact (\<lambda>v. v) A b omega ?xk ! j - ?xk ! j\<bar> \<le> ?q ^ k * D"
    using sweep_steps_shrink [OF dom rho(1) rho1 lenx om D0 first, of k] by simp
  have lenxk: "length ?xk = ?m" by (simp only: length_funpow_sweep lenx)
  have rows: "\<forall>i<?m. \<bar>np_matmul exact A (sweep exact (\<lambda>v. v) A b omega ?xk) ! i - b ! i\<bar> \<le> ?E"
  proof (intro allI impI)
    fix i assume i: "i < ?m"
    have "\<bar>np_matmul exact A (sweep exact (\<lambda>v. v) A b omega ?xk) ! i - b ! i\<bar> \<le> (\<bar>A ! i ! i\<bar> / omega) * (?q ^ k * D)"
      by (rule residual_row_after_sweep [OF dom rho(1) rho1 lenxk om i steps])
    also have "\<dots> \<le> (K / omega) * (?q ^ k * D)"
      using Kge [OF i] om q0 D0 by (intro mult_right_mono divide_right_mono) simp_all
    also have "\<dots> \<le> (K / omega) * (eps * (D + 1))"
    proof (rule mult_left_mono)
      have "?q ^ k * D \<le> eps * D" using k D0 by (intro mult_right_mono) simp_all
      also have "\<dots> \<le> eps * (D + 1)" using eps0 by simp
      finally show "?q ^ k * D \<le> eps * (D + 1)" .
      show "0 \<le> K / omega" using K0 om by simp
    qed
    also have "\<dots> = ?E"
    proof -
      have nz: "D + 1 \<noteq> 0" "K \<noteq> 0" "omega \<noteq> 0" "real ?m + 1 \<noteq> 0"
        using D0 K0 om by simp_all
      have "eps * (D + 1) = tol * omega / ((real ?m + 1) * K)"
        unfolding eps_def using nz by (simp add: divide_simps)
      then have "(K / omega) * (eps * (D + 1)) = (K / omega) * (tol * omega / ((real ?m + 1) * K))"
        by simp
      also have "\<dots> = ?E" using nz by (simp add: divide_simps)
      finally show ?thesis .
    qed
    finally show "\<bar>np_matmul exact A (sweep exact (\<lambda>v. v) A b omega ?xk) ! i - b ! i\<bar> \<le> ?E" .
  qed
  have small: "real ?m * ?E\<^sup>2 \<le> tol\<^sup>2"
  proof -
    have "real ?m * ?E\<^sup>2 = (real ?m / (real ?m + 1)\<^sup>2) * tol\<^sup>2"
      by (simp add: power_divide)
    also have "\<dots> \<le> 1 * tol\<^sup>2"
    proof (rule mult_right_mono)
      have "real ?m \<le> (real ?m + 1)\<^sup>2" by (simp add: power2_eq_square algebra_simps)
      then show "real ?m / (real ?m + 1)\<^sup>2 \<le> 1" by simp
      show "0 \<le> tol\<^sup>2" by simp
    qed
    finally show ?thesis by simp
  qed
  have "residual exact A b (sweep exact (\<lambda>v. v) A b omega ?xk) \<le> tol"
    using residual_le [OF lenb rows _ small] tol by simp
  then have "residual exact A b ((sweep exact (\<lambda>v. v) A b omega ^^ Suc k) x0) \<le> tol" by simp
  then show ?thesis by blast
qed

lemma relajacion_returns:
  assumes "dominant A rho" "0 \<le> rho" "rho < 1"
    "length b = length A" "length x0 = length A"
    "0 < omega" "omega \<le> 1" "0 < tol"
  shows "\<exists>x. relajacion exact (\<lambda>v. v) A b x0 omega tol = Some x \<and> length x = length A
           \<and> residual exact A b x \<le> tol"
proof -
  from sor_converges [OF assms] obtain k
    where "residual exact A b ((sweep exact (\<lambda>v. v) A b omega ^^ k) x0) \<le> tol" by blast
  from relajacion_loop_terminates [OF this] obtain n
    where n: "relajacion_loop exact (\<lambda>v. v) A b omega tol x0
                = Some ((sweep exact (\<lambda>v. v) A b omega ^^ n) x0)"
      "residual exact A b ((sweep exact (\<lambda>v. v) A b omega ^^ n) x0) \<le> tol" by blast
  with assms(5) show ?thesis
    by (simp add: relajacion_def length_funpow_sweep)
qed

lemma sum_single_le:
  fixes v :: real
  assumes "finite J" "0 \<le> v"
  shows "(\<Sum>j\<in>J. if j = c then v else 0) \<le> v"
  using assms by (simp add: sum.delta)

lemma system_A_dominant:
  assumes k: "3 \<le> length hk" and pos: "\<forall>i<length hk. 0 < hk ! i"
  shows "dominant (system_A exact hk) (1 / 2)"
  unfolding dominant_def
proof (intro allI impI conjI)
  fix r assume "r < length (system_A exact hk)"
  then have r: "r < length hk - 1" by (simp add: length_system_A)
  let ?A = "system_A exact hk"
  let ?J = "{..<length ?A} - {r}"
  from r pos have h0: "0 < hk ! r" and h1: "0 < hk ! (r + 1)" by simp_all
  show "length (?A ! r) = length ?A"
    using k r by (simp add: length_system_A_row length_system_A)
  have diag: "?A ! r ! r = 2 * (hk ! r + hk ! (r + 1))"
    using k r by (simp add: system_A_nth exact_simps)
  with h0 h1 show "?A ! r ! r \<noteq> 0" by simp
  have "(\<Sum>j\<in>?J. \<bar>?A ! r ! j\<bar>)
          = (\<Sum>j\<in>?J. (if j = r - 1 then (if 0 < r then hk ! r else 0) else 0)
                       + (if j = r + 1 then hk ! (r + 1) else 0))"
  proof (rule sum.cong [OF refl])
    fix j assume "j \<in> ?J"
    then have j: "j < length hk - 1" "j \<noteq> r" by (simp_all add: length_system_A)
    show "\<bar>?A ! r ! j\<bar> = (if j = r - 1 then (if 0 < r then hk ! r else 0) else 0)
                       + (if j = r + 1 then hk ! (r + 1) else 0)"
      using k r j h0 h1 by (auto simp: system_A_nth exact_simps)
  qed
  also have "\<dots> = (\<Sum>j\<in>?J. if j = r - 1 then (if 0 < r then hk ! r else 0) else 0)
                  + (\<Sum>j\<in>?J. if j = r + 1 then hk ! (r + 1) else 0)"
    by (rule sum.distrib)
  also have "\<dots> \<le> (if 0 < r then hk ! r else 0) + hk ! (r + 1)"
    using h0 h1 by (intro add_mono sum_single_le) simp_all
  also have "\<dots> \<le> hk ! r + hk ! (r + 1)" using h0 by (cases "0 < r") simp_all
  also have "\<dots> = 1 / 2 * \<bar>?A ! r ! r\<bar>" using diag h0 h1 by simp
  finally show "(\<Sum>j\<in>?J. \<bar>?A ! r ! j\<bar>) \<le> 1 / 2 * \<bar>?A ! r ! r\<bar>" .
qed

lemma valid_points_hk_pos:
  assumes "valid_points ps" "i < length (hk_of exact ps)"
  shows "0 < hk_of exact ps ! i"
proof -
  from assms have i: "i < length ps - 1" by (simp add: length_hk_of)
  from assms(1) have "sorted_wrt (<) (map fst ps)" by (simp add: valid_points_def)
  from sorted_wrt_nth_less [OF this, of i "i + 1"] i
  have "fst (ps ! i) < fst (ps ! (i + 1))" by simp
  with i show ?thesis by (simp add: hk_of_nth exact_simps)
qed

lemma inner_sigmas_returns:
  assumes "valid_points ps"
  shows "\<exists>s. inner_sigmas exact ps = Some s \<and> length s = length ps - 2"
proof -
  let ?hk = "hk_of exact ps"
  let ?A = "system_A exact ?hk" and ?b = "system_b exact ?hk (delta_yk_of exact ps)"
  from assms have n: "4 \<le> length ps" by (simp add: valid_points_def)
  then have k: "3 \<le> length ?hk" by (simp add: length_hk_of)
  have dom: "dominant ?A (1 / 2)"
    using k valid_points_hk_pos [OF assms] by (intro system_A_dominant) simp_all
  have "\<exists>x. relajacion exact (\<lambda>v. v) ?A ?b (replicate (length ?b) 0) (1 / 2) (1 / 10 ^ 8) = Some x
          \<and> length x = length ?A \<and> residual exact ?A ?b x \<le> 1 / 10 ^ 8"
    by (rule relajacion_returns [OF dom]) (simp_all add: length_system_A length_system_b)
  then show ?thesis
    by (auto simp: inner_sigmas_def Let_def length_system_A length_hk_of exact_simps)
qed

lemma trazador_cubico_exact_returns:
  assumes "isinstance_list_tuple obj" "valid_points (items obj)"
  shows "\<exists>a b c d. trazador_cubico exact obj = Some (Inr (a, b, c, d))"
proof -
  from assms(2) have n: "\<not> length (items obj) < 4" by (simp add: valid_points_def)
  from inner_sigmas_returns [OF assms(2)] obtain s
    where "inner_sigmas exact (items obj) = Some s" by blast
  with assms(1) n have "trazador_cubico exact obj
      = Some (Inr (coefficients exact (items obj) (0 # (s @ [0]))))"
    by (simp add: trazador_cubico_def sigmas_of_def exact_simps)
  then show ?thesis by (metis prod_cases4)
qed

section \<open>The builder: validation, coefficients, boundary condition\<close>

lemma trazador_cubico_lengths:
  assumes "trazador_cubico ar obj = Some (Inr (a, b, c, d))"
  shows "length a = length (items obj) - 2 \<and> length b = length (items obj) - 2
           \<and> length c = length (items obj) - 2 \<and> length d = length (items obj) - 2"
proof -
  from trazador_cubico_Inr [OF assms] obtain sigmas
    where "coefficients ar (items obj) sigmas = (a, b, c, d)" by auto
  then show ?thesis by (rule coefficients_lengths)
qed

text \<open>
  Claim C10. \<^verbatim>\<open>trazador_cubico\<close> accepts lists and tuples only: every object of
  another type is rejected with the error of the type check instead of coefficients, and
  so is a NumPy array, whatever points it holds (four or more valid ones included).
\<close>
theorem trazador_cubico_only_list_tuple:
  "(\<not> isinstance_list_tuple obj \<longrightarrow>
      trazador_cubico ar obj = Some (Inl (ValueError msg_not_sequence)))
   \<and> trazador_cubico ar (PyNdarray ps) = Some (Inl (ValueError msg_not_sequence))"
  by (simp add: trazador_cubico_def)

theorem trazador_cubico_only_list_tuple_witness:
  "\<not> isinstance_list_tuple (PyNdarray zigzag_points)
   \<and> valid_points zigzag_points
   \<and> trazador_cubico exact (PyNdarray zigzag_points)
       = Some (Inl (ValueError msg_not_sequence))"
  using trazador_cubico_only_list_tuple
    [of "PyNdarray zigzag_points" exact zigzag_points]
  by (simp add: valid_points_def)

text \<open>
  Claim C8 asks that the error message names the violated constraint, the minimum length
  of four for a short sequence. Evaluated on a list of three points: the call is rejected
  with the message of \<open>msg_too_short\<close>, which asks for a length greater than 1; the
  rejected list has a length greater than 1, and the digit 4 does not occur in the message.
\<close>
theorem too_short_message_names_length_one:
  "trazador_cubico exact (PyList [(0, 0), (1, 1), (2, 0)])
     = Some (Inl (ValueError msg_too_short))
   \<and> 1 < length [(0, 0), (1, 1), (2, 0 :: real) :: real \<times> real]
   \<and> CHR ''4'' \<notin> set msg_too_short"
  by (simp add: trazador_cubico_def msg_too_short_def)

text \<open>
  Claim C1 asks for four arrays of length \<open>n - 1\<close>, one cubic for every segment.
  Evaluated on four collinear points (\<open>n = 4\<close>, three segments): the four arrays that
  are returned have two entries each, the coefficients of segments 0 and 1; segment 2 has
  none.
\<close>
theorem trazador_cubico_drops_last_segment:
  "trazador_cubico exact (PyList collinear_points)
     = Some (Inr ([0, 0], [0, 0], [1, 1], [0, 1]))
   \<and> length [0, 0 :: real] \<noteq> length collinear_points - 1"
  by (simp add: collinear_result)

text \<open>
  Claim C7. An argument that is not a list or tuple, or that has fewer than four points,
  makes \<^verbatim>\<open>trazador_cubico\<close> raise its error: the result is the error alone, with no
  coefficient array. A list or tuple of four or more points passes both checks and raises
  no error: the call returns four arrays, or the loop of the solver does not end and the
  call does not return. Which of the two happens depends on the arithmetic.
\<close>
theorem trazador_cubico_minimum_size:
  "(\<not> isinstance_list_tuple obj \<or> length (items obj) < 4 \<longrightarrow>
      (\<exists>msg. trazador_cubico ar obj = Some (Inl (ValueError msg))))
   \<and> (isinstance_list_tuple obj \<and> 4 \<le> length (items obj) \<longrightarrow>
        (trazador_cubico ar obj = None \<and> inner_sigmas ar (items obj) = None)
        \<or> (\<exists>a b c d. trazador_cubico ar obj = Some (Inr (a, b, c, d))))"
proof (intro conjI impI)
  assume "\<not> isinstance_list_tuple obj \<or> length (items obj) < 4"
  then show "\<exists>msg. trazador_cubico ar obj = Some (Inl (ValueError msg))"
    by (auto simp: trazador_cubico_def)
next
  assume h: "isinstance_list_tuple obj \<and> 4 \<le> length (items obj)"
  show "(trazador_cubico ar obj = None \<and> inner_sigmas ar (items obj) = None)
        \<or> (\<exists>a b c d. trazador_cubico ar obj = Some (Inr (a, b, c, d)))"
  proof (cases "inner_sigmas ar (items obj)")
    case None
    with h show ?thesis by (simp add: trazador_cubico_def sigmas_of_def)
  next
    case (Some s)
    with h have "trazador_cubico ar obj
        = Some (Inr (coefficients ar (items obj) (flit ar 0 # (s @ [flit ar 0]))))"
      by (simp add: trazador_cubico_def sigmas_of_def)
    then have "\<exists>a b c d. trazador_cubico ar obj = Some (Inr (a, b, c, d))"
      by (metis prod_cases4)
    then show ?thesis by blast
  qed
qed

theorem trazador_cubico_minimum_size_witness:
  "(\<exists>msg. trazador_cubico exact (PyList [(0, 0), (1, 1), (2, 0)])
             = Some (Inl (ValueError msg)))
   \<and> (\<exists>msg. trazador_cubico exact PyOther = Some (Inl (ValueError msg)))
   \<and> (\<exists>a b c d. trazador_cubico exact (PyList collinear_points) = Some (Inr (a, b, c, d)))"
  using trazador_cubico_minimum_size [of "PyList [(0, 0), (1, 1), (2, 0)]" exact]
    trazador_cubico_minimum_size [of PyOther exact]
    trazador_cubico_minimum_size [of "PyList collinear_points" exact]
    collinear_result
  by simp

text \<open>
  Claim C5. For every sequence of \<open>n \<ge> 4\<close> points, whenever the vector \<^verbatim>\<open>sigmas\<close> is
  assembled, it has length \<open>n\<close> and its first and last entries are the number 0 that the
  code puts there.
\<close>
theorem sigmas_natural_boundary:
  assumes "4 \<le> length ps" "sigmas_of ar ps = Some sigmas"
  shows "length sigmas = length ps \<and> sigmas ! 0 = flit ar 0
           \<and> sigmas ! (length ps - 1) = flit ar 0"
proof -
  from sigmas_of_Some [OF assms(2)] obtain s
    where s: "sigmas = flit ar 0 # (s @ [flit ar 0])" "length s = length ps - 2" by blast
  have "length (flit ar 0 # (s @ [flit ar 0])) = length ps" using s(2) assms(1) by simp
  moreover have "(flit ar 0 # (s @ [flit ar 0])) ! (length ps - 1) = flit ar 0"
  proof -
    have "length ps - 1 = Suc (length s)" using s(2) assms(1) by simp
    then show ?thesis by (simp add: nth_append)
  qed
  ultimately show ?thesis using s(1) by simp
qed

theorem sigmas_natural_boundary_witness:
  "4 \<le> length collinear_points
   \<and> sigmas_of exact collinear_points = Some [0, 0, 0, 0]
   \<and> length [0, 0, 0, 0 :: real] = length collinear_points
   \<and> [0, 0, 0, 0 :: real] ! 0 = flit exact 0
   \<and> [0, 0, 0, 0 :: real] ! (length collinear_points - 1) = flit exact 0"
proof -
  have n: "4 \<le> length collinear_points" by simp
  from sigmas_natural_boundary [OF n collinear_sigmas] n collinear_sigmas
  show ?thesis by blast
qed

text \<open>
  Claim C2. Whenever \<^verbatim>\<open>trazador_cubico\<close> returns arrays \<open>a, b, c, d\<close>, they have
  the same length, and for every index \<open>i\<close> of theirs
  \<open>a[i] = (sigma[i+1] - sigma[i]) / (6 h[i])\<close>, \<open>b[i] = sigma[i] / 2\<close>,
  \<open>c[i] = dy[i] / h[i] - (2 h[i] sigma[i] + h[i] sigma[i+1]) / 6\<close> and \<open>d[i] = y[i]\<close>,
  where \<open>sigma\<close> is the assembled vector of second derivatives and \<open>h\<close>, \<open>dy\<close> are
  the vectors of knot spacings and of differences of ordinates. The operations are those
  of the program's arithmetic, applied in the order written.
\<close>
theorem trazador_cubico_coefficients:
  assumes "trazador_cubico ar obj = Some (Inr (a, b, c, d))"
  shows "\<exists>sigmas. sigmas_of ar (items obj) = Some sigmas
           \<and> length b = length a \<and> length c = length a \<and> length d = length a
           \<and> (\<forall>i<length a.
                 a ! i = fdiv ar (fsub ar (sigmas ! (i + 1)) (sigmas ! i))
                                 (fmul ar (flit ar 6) (hk_of ar (items obj) ! i))
               \<and> b ! i = fdiv ar (sigmas ! i) (flit ar 2)
               \<and> c ! i = fsub ar
                           (fdiv ar (delta_yk_of ar (items obj) ! i) (hk_of ar (items obj) ! i))
                           (fdiv ar
                              (fadd ar
                                 (fmul ar (fmul ar (flit ar 2) (hk_of ar (items obj) ! i))
                                          (sigmas ! i))
                                 (fmul ar (hk_of ar (items obj) ! i) (sigmas ! (i + 1))))
                              (flit ar 6))
               \<and> d ! i = snd (items obj ! i))"
proof -
  from trazador_cubico_Inr [OF assms] obtain sigmas
    where s: "sigmas_of ar (items obj) = Some sigmas"
      and co: "coefficients ar (items obj) sigmas = (a, b, c, d)" by auto
  from coefficients_lengths [OF co] coefficients_nth [OF co] s show ?thesis
    by (intro exI [of _ sigmas]) simp
qed

theorem trazador_cubico_coefficients_witness:
  "trazador_cubico exact (PyList collinear_points)
     = Some (Inr ([0, 0], [0, 0], [1, 1], [0, 1]))
   \<and> (\<exists>sigmas. sigmas_of exact collinear_points = Some sigmas
         \<and> (\<forall>i<length [0, 0 :: real].
                   [0, 0] ! i
                     = (sigmas ! (i + 1) - sigmas ! i) / (6 * hk_of exact collinear_points ! i)
                 \<and> [0, 0] ! i = sigmas ! i / 2
                 \<and> [1, 1] ! i
                     = delta_yk_of exact collinear_points ! i / hk_of exact collinear_points ! i
                       - (2 * hk_of exact collinear_points ! i * sigmas ! i
                          + hk_of exact collinear_points ! i * sigmas ! (i + 1)) / 6
                 \<and> [0, 1] ! i = snd (collinear_points ! i)))"
  using trazador_cubico_coefficients [OF collinear_result] collinear_result
  by (simp add: exact_simps)



section \<open>The tridiagonal system\<close>

text \<open>
  Claim C3. For a sequence of \<open>n \<ge> 4\<close> points the system built for the unknowns
  \<open>sigma[1..n-2]\<close> has \<open>n - 2\<close> rows of \<open>n - 2\<close> entries and a right-hand side of
  \<open>n - 2\<close> entries. In the row of unknown \<open>i\<close> the diagonal entry is
  \<open>2 (h[i-1] + h[i])\<close>, the entry to its left (absent in the first row) is \<open>h[i-1]\<close>,
  the entry to its right (absent in the last row) is \<open>h[i]\<close>, every other entry is 0,
  and the right-hand side is \<open>6 (dy[i] / h[i] - dy[i-1] / h[i-1])\<close>. The system is
  solved by \<^verbatim>\<open>relajacion\<close> from the zero vector, with the default relaxation factor
  and tolerance.
\<close>
theorem spline_system_tridiagonal:
  assumes "4 \<le> length ps"
  shows "length (system_A ar (hk_of ar ps)) = length ps - 2
     \<and> length (system_b ar (hk_of ar ps) (delta_yk_of ar ps)) = length ps - 2
     \<and> (\<forall>i. 1 \<le> i \<and> i \<le> length ps - 2 \<longrightarrow>
           length (system_A ar (hk_of ar ps) ! (i - 1)) = length ps - 2
         \<and> system_A ar (hk_of ar ps) ! (i - 1) ! (i - 1)
             = fmul ar (flit ar 2) (fadd ar (hk_of ar ps ! (i - 1)) (hk_of ar ps ! i))
         \<and> (1 < i \<longrightarrow> system_A ar (hk_of ar ps) ! (i - 1) ! (i - 2) = hk_of ar ps ! (i - 1))
         \<and> (i < length ps - 2 \<longrightarrow> system_A ar (hk_of ar ps) ! (i - 1) ! i = hk_of ar ps ! i)
         \<and> (\<forall>c<length ps - 2. c + 2 \<noteq> i \<and> c + 1 \<noteq> i \<and> c \<noteq> i \<longrightarrow>
                system_A ar (hk_of ar ps) ! (i - 1) ! c = flit ar 0)
         \<and> system_b ar (hk_of ar ps) (delta_yk_of ar ps) ! (i - 1)
             = fmul ar (flit ar 6)
                 (fsub ar (fdiv ar (delta_yk_of ar ps ! i) (hk_of ar ps ! i))
                          (fdiv ar (delta_yk_of ar ps ! (i - 1)) (hk_of ar ps ! (i - 1)))))
     \<and> inner_sigmas ar ps
         = relajacion ar (\<lambda>v. v) (system_A ar (hk_of ar ps))
             (system_b ar (hk_of ar ps) (delta_yk_of ar ps))
             (replicate (length ps - 2) (flit ar 0)) (flit ar (1 / 2)) (flit ar (1 / 10 ^ 8))"
proof -
  let ?hk = "hk_of ar ps" and ?dy = "delta_yk_of ar ps"
  from assms have k: "3 \<le> length ?hk" and k2: "length ?hk - 1 = length ps - 2"
    by (simp_all add: length_hk_of)
  have rows: "\<And>i. 1 \<le> i \<and> i \<le> length ps - 2 \<Longrightarrow>
           length (system_A ar ?hk ! (i - 1)) = length ps - 2
         \<and> system_A ar ?hk ! (i - 1) ! (i - 1)
             = fmul ar (flit ar 2) (fadd ar (?hk ! (i - 1)) (?hk ! i))
         \<and> (1 < i \<longrightarrow> system_A ar ?hk ! (i - 1) ! (i - 2) = ?hk ! (i - 1))
         \<and> (i < length ps - 2 \<longrightarrow> system_A ar ?hk ! (i - 1) ! i = ?hk ! i)
         \<and> (\<forall>c<length ps - 2. c + 2 \<noteq> i \<and> c + 1 \<noteq> i \<and> c \<noteq> i \<longrightarrow>
                system_A ar ?hk ! (i - 1) ! c = flit ar 0)
         \<and> system_b ar ?hk ?dy ! (i - 1)
             = fmul ar (flit ar 6)
                 (fsub ar (fdiv ar (?dy ! i) (?hk ! i)) (fdiv ar (?dy ! (i - 1)) (?hk ! (i - 1))))"
  proof -
    fix i assume i: "1 \<le> i \<and> i \<le> length ps - 2"
    then obtain r where r: "i = Suc r" "r < length ?hk - 1"
      using k2 by (cases i) simp_all
    have len: "length (system_A ar ?hk ! r) = length ps - 2"
      using length_system_A_row [OF k r(2)] k2 by simp
    have diag: "system_A ar ?hk ! r ! r = fmul ar (flit ar 2) (fadd ar (?hk ! r) (?hk ! Suc r))"
      using system_A_nth [OF k r(2) r(2)] by simp
    have left: "0 < r \<longrightarrow> system_A ar ?hk ! r ! (r - 1) = ?hk ! r"
    proof
      assume "0 < r"
      then have "r - 1 < length ?hk - 1" "r - 1 \<noteq> r" "r - 1 + 1 = r" using r(2) by simp_all
      with system_A_nth [OF k r(2), of "r - 1"] show "system_A ar ?hk ! r ! (r - 1) = ?hk ! r"
        by simp
    qed
    have right: "Suc r < length ps - 2 \<longrightarrow> system_A ar ?hk ! r ! Suc r = ?hk ! Suc r"
    proof
      assume "Suc r < length ps - 2"
      then have "Suc r < length ?hk - 1" using k2 by simp
      from system_A_nth [OF k r(2) this] show "system_A ar ?hk ! r ! Suc r = ?hk ! Suc r"
        by simp
    qed
    have zero: "\<forall>c<length ps - 2. c + 2 \<noteq> Suc r \<and> c + 1 \<noteq> Suc r \<and> c \<noteq> Suc r \<longrightarrow>
                system_A ar ?hk ! r ! c = flit ar 0"
    proof (intro allI impI)
      fix c assume c: "c < length ps - 2"
        and ne: "c + 2 \<noteq> Suc r \<and> c + 1 \<noteq> Suc r \<and> c \<noteq> Suc r"
      from c have "c < length ?hk - 1" using k2 by simp
      from system_A_nth [OF k r(2) this] ne show "system_A ar ?hk ! r ! c = flit ar 0" by simp
    qed
    have rhs: "system_b ar ?hk ?dy ! r
                 = fmul ar (flit ar 6)
                     (fsub ar (fdiv ar (?dy ! Suc r) (?hk ! Suc r)) (fdiv ar (?dy ! r) (?hk ! r)))"
      using system_b_nth [OF r(2)] by simp
    have "Suc r - 2 = r - 1" by simp
    with len diag left right zero rhs r(1)
    show "length (system_A ar ?hk ! (i - 1)) = length ps - 2
         \<and> system_A ar ?hk ! (i - 1) ! (i - 1)
             = fmul ar (flit ar 2) (fadd ar (?hk ! (i - 1)) (?hk ! i))
         \<and> (1 < i \<longrightarrow> system_A ar ?hk ! (i - 1) ! (i - 2) = ?hk ! (i - 1))
         \<and> (i < length ps - 2 \<longrightarrow> system_A ar ?hk ! (i - 1) ! i = ?hk ! i)
         \<and> (\<forall>c<length ps - 2. c + 2 \<noteq> i \<and> c + 1 \<noteq> i \<and> c \<noteq> i \<longrightarrow>
                system_A ar ?hk ! (i - 1) ! c = flit ar 0)
         \<and> system_b ar ?hk ?dy ! (i - 1)
             = fmul ar (flit ar 6)
                 (fsub ar (fdiv ar (?dy ! i) (?hk ! i)) (fdiv ar (?dy ! (i - 1)) (?hk ! (i - 1))))"
      by simp
  qed
  have solve: "inner_sigmas ar ps
         = relajacion ar (\<lambda>v. v) (system_A ar ?hk) (system_b ar ?hk ?dy)
             (replicate (length ps - 2) (flit ar 0)) (flit ar (1 / 2)) (flit ar (1 / 10 ^ 8))"
    using k2 by (simp add: inner_sigmas_def Let_def length_system_b)
  from rows solve k2 show ?thesis
    by (simp add: length_system_A length_system_b)
qed

theorem spline_system_tridiagonal_witness:
  "4 \<le> length zigzag_points
   \<and> system_A exact (hk_of exact zigzag_points) = [[4, 1], [1, 4]]
   \<and> system_b exact (hk_of exact zigzag_points) (delta_yk_of exact zigzag_points) = [- 12, 0]
   \<and> system_A exact (hk_of exact zigzag_points) ! (2 - 1) ! (2 - 1)
       = 2 * (hk_of exact zigzag_points ! (2 - 1) + hk_of exact zigzag_points ! 2)
   \<and> system_A exact (hk_of exact zigzag_points) ! (2 - 1) ! (2 - 2)
       = hk_of exact zigzag_points ! (2 - 1)
   \<and> inner_sigmas exact zigzag_points
       = relajacion exact (\<lambda>v. v) [[4, 1], [1, 4]] [- 12, 0] [0, 0] (1 / 2) (1 / 10 ^ 8)"
proof -
  have n: "4 \<le> length zigzag_points" by simp
  have hk: "hk_of exact zigzag_points = [1, 1, 1]"
    "delta_yk_of exact zigzag_points = [1, - 1, - 1]"
    by (simp_all add: hk_of_def delta_yk_of_def fsub_exact)
  have A: "system_A exact [1, 1, 1] = [[4, 1], [1, 4]]"
    by (simp add: system_A_def system_row_def exact_simps upt_rec numeral_2_eq_2
        numeral_3_eq_3)
  have b: "system_b exact [1, 1, 1] [1, - 1, - 1] = [- 12, 0]"
    by (simp add: system_b_def exact_simps upt_rec numeral_2_eq_2 numeral_3_eq_3)
  from spline_system_tridiagonal [OF n, of exact] have
    "inner_sigmas exact zigzag_points
       = relajacion exact (\<lambda>v. v) (system_A exact (hk_of exact zigzag_points))
           (system_b exact (hk_of exact zigzag_points) (delta_yk_of exact zigzag_points))
           (replicate (length zigzag_points - 2) (flit exact 0))
           (flit exact (1 / 2)) (flit exact (1 / 10 ^ 8))"
    by blast
  then have "inner_sigmas exact zigzag_points
       = relajacion exact (\<lambda>v. v) [[4, 1], [1, 4]] [- 12, 0] [0, 0] (1 / 2) (1 / 10 ^ 8)"
    by (simp add: hk A b exact_simps numeral_2_eq_2)
  then show ?thesis
    by (simp add: hk A b)
qed

section \<open>The solver and the caller's arrays\<close>

text \<open>
  Claim C9. \<^verbatim>\<open>relajacion\<close> never writes to the caller's \<^verbatim>\<open>x0\<close>: after any
  number of sweeps the cell of \<^verbatim>\<open>x0\<close> holds its original value, and when the call
  returns, the array returned is a new one, \<^verbatim>\<open>x0\<close> and every other array of the
  caller's store hold their original values.
\<close>
theorem relajacion_keeps_x0:
  assumes "x0p < length h"
  shows "(\<forall>n. (sweep_st ar cast A bp omega (fst (np_copy x0p h)) ^^ n) (snd (np_copy x0p h))
                 ! x0p = h ! x0p)
     \<and> (\<forall>xp h'. relajacion_st ar cast A bp x0p omega tol h = Some (xp, h') \<longrightarrow>
           xp \<noteq> x0p \<and> h' ! x0p = h ! x0p \<and> (\<forall>p<length h. h' ! p = h ! p))"
proof (intro conjI allI impI)
  fix n
  have "x0p \<noteq> length h" using assms by simp
  with funpow_sweep_st_frame [where ar = ar and cast = cast and A = A and bp = bp
      and omega = omega and xp = "length h" and n = n and h = "h @ [h ! x0p]" and p = x0p]
  have "(sweep_st ar cast A bp omega (length h) ^^ n) (h @ [h ! x0p]) ! x0p
          = (h @ [h ! x0p]) ! x0p"
    by simp
  with assms
  show "(sweep_st ar cast A bp omega (fst (np_copy x0p h)) ^^ n) (snd (np_copy x0p h)) ! x0p
          = h ! x0p"
    by (simp add: np_copy_def nth_append)
next
  fix xp h' assume ret: "relajacion_st ar cast A bp x0p omega tol h = Some (xp, h')"
  from relajacion_st_frame [OF assms ret] assms
  show "xp \<noteq> x0p" "h' ! x0p = h ! x0p" by simp_all
  fix p assume "p < length h"
  with relajacion_st_frame(3) [OF assms ret] show "h' ! p = h ! p" by simp
qed

theorem relajacion_keeps_x0_witness:
  "(1 :: nat) < length [[1, 2], [0, 0 :: real]]
   \<and> relajacion_st exact (\<lambda>v. v) [[4, 1], [1, 4]] 0 1 (1 / 2) (1 / 2) [[1, 2], [0, 0]]
       = Some (2, [[1, 2], [0, 0], [81 / 512, 1423 / 4096]])
   \<and> (2 :: nat) \<noteq> 1
   \<and> [[1, 2], [0, 0], [81 / 512, 1423 / 4096 :: real]] ! 1 = [[1, 2], [0, 0]] ! 1"
proof -
  have len: "(1 :: nat) < length [[1, 2], [0, 0 :: real]]" by simp
  from relajacion_keeps_x0 [OF len, where ar = exact and cast = "\<lambda>v. v"
      and A = "[[4, 1], [1, 4]]" and bp = 0 and omega = "1 / 2" and tol = "1 / 2"]
    sample_run_st
  have "[[1, 2], [0, 0], [81 / 512, 1423 / 4096 :: real]] ! 1 = [[1, 2], [0, 0]] ! 1"
    by blast
  with len sample_run_st show ?thesis by simp
qed

section \<open>The solver's loop\<close>




end
